theory Spec2Isabelle
  imports Main "HOL-Library.AList"
begin

section \<open>JavaScript values and objects\<close>

text \<open>
  The URL state helpers of the starter (\<^verbatim>\<open>lib/urlState.ts\<close>) and their React bindings
  (\<^verbatim>\<open>hooks/useUrlState.ts\<close>) work on plain JavaScript objects whose values are
  \<^verbatim>\<open>string | number | boolean | string[] | undefined\<close> (the table variant admits
  \<^verbatim>\<open>unknown\<close>). The values are modelled by the datatype below.

  \<^item> A string stands for its UTF-8 encoding, the bytes the URL carries. (Strings with
    lone surrogates have no such encoding and are not modelled.)
  \<^item> \<open>JNum n\<close> stands for the Number nearest to the integer \<open>n\<close> (an integer of
    magnitude below \<open>2^53\<close> is a Number itself), and \<open>JInfinity\<close> for \<^verbatim>\<open>Infinity\<close>.
    Fractions, NaN and negative zero are not modelled.
  \<^item> \<open>JObjectPrototype\<close> and \<open>JFunction name\<close> are the built-in objects that a read
    through the prototype chain can return: \<^verbatim>\<open>Object.prototype\<close> itself and the native
    functions, told apart by their names.
  \<^item> An object is the list of its own enumerable properties with distinct keys, in the
    order they were added; keys that are array indices, which JavaScript enumerates
    first, are not treated specially. Spreading, \<^verbatim>\<open>Object.entries\<close> and \<^verbatim>\<open>delete\<close> see
    own properties only. The one place where the code reads and writes through the
    prototype chain, \<^verbatim>\<open>result[key]\<close> in \<^verbatim>\<open>parseUrlParams\<close>, is modelled with the
    prototype (see \<open>js_object\<close> below).
\<close>

datatype jsval =
  JUndefined | JNull | JBool bool | JNum int | JInfinity | JStr string | JArr "jsval list"
  | JObjectPrototype | JFunction string

type_synonym jsobj = "(string \<times> jsval) list"

definition obj_get :: "jsobj \<Rightarrow> string \<Rightarrow> jsval" where
  \<comment> \<open>\<^verbatim>\<open>obj[key]\<close>: a missing property reads as \<^verbatim>\<open>undefined\<close>.\<close>
  "obj_get obj key = (case map_of obj key of Some v \<Rightarrow> v | None \<Rightarrow> JUndefined)"

definition obj_set :: "jsobj \<Rightarrow> string \<Rightarrow> jsval \<Rightarrow> jsobj" where
  \<comment> \<open>\<^verbatim>\<open>obj[key] = v\<close>: overwrite in place, or add the property last.\<close>
  "obj_set obj key v = AList.update key v obj"

definition obj_delete :: "jsobj \<Rightarrow> string \<Rightarrow> jsobj" where
  \<comment> \<open>\<^verbatim>\<open>delete obj[key]\<close>\<close>
  "obj_delete obj key = AList.delete key obj"

definition spread :: "jsobj \<Rightarrow> jsobj \<Rightarrow> jsobj" where
  \<comment> \<open>\<^verbatim>\<open>{ ...obj, ...src }\<close>: the properties of \<open>src\<close> are written over \<open>obj\<close> in order.\<close>
  "spread obj src = foldl (\<lambda>r (k, v). obj_set r k v) obj src"

definition spread_opt :: "jsobj \<Rightarrow> jsobj option \<Rightarrow> jsobj" where
  \<comment> \<open>Spreading \<^verbatim>\<open>undefined\<close> adds nothing.\<close>
  "spread_opt obj src = (case src of None \<Rightarrow> obj | Some s \<Rightarrow> spread obj s)"

subsection \<open>String conversion\<close>

definition digit_char :: "nat \<Rightarrow> char" where
  "digit_char d = char_of (48 + d)"

function decimal :: "int \<Rightarrow> string" where
  \<comment> \<open>The decimal digits of a non-negative integer.\<close>
  "decimal n =
     (if n < 10 then [digit_char (nat n)] else decimal (n div 10) @ [digit_char (nat (n mod 10))])"
  by pat_completeness auto
termination
  by (relation "measure nat") auto

declare decimal.simps [simp del]

fun join :: "string \<Rightarrow> string list \<Rightarrow> string" where
  "join sep [] = []"
| "join sep [x] = x"
| "join sep (x # y # ys) = x @ sep @ join sep (y # ys)"

function bit_length :: "int \<Rightarrow> nat" where
  "bit_length n = (if n \<le> 0 then 0 else Suc (bit_length (n div 2)))"
  by pat_completeness auto
termination
  by (relation "measure nat") auto

declare bit_length.simps [simp del]

definition round_to_double :: "int \<Rightarrow> int option" where
  \<comment> \<open>The Number nearest to a non-negative integer, ties to the even significand of 53
      bits; \<open>None\<close> is \<^verbatim>\<open>Infinity\<close>.\<close>
  "round_to_double n =
     (if n < 2 ^ 53 then Some n
      else
        (let e = bit_length n - 53;
             q = n div 2 ^ e;
             r = n mod 2 ^ e;
             q' = (if 2 * r > 2 ^ e \<or> (2 * r = 2 ^ e \<and> odd q) then q + 1 else q);
             m = q' * 2 ^ e
         in if m \<ge> 2 ^ 1024 then None else Some m))"

fun shortest_decimal :: "int \<Rightarrow> nat \<Rightarrow> int" where
  \<comment> \<open>The integer with the fewest significant digits that reads back as the Number \<open>x\<close>:
      the multiples of \<open>10 ^ t\<close> next to \<open>x\<close> are tried for \<open>t\<close> counting down, the
      nearer one first.\<close>
  "shortest_decimal x 0 = x"
| "shortest_decimal x (Suc t) =
     (let p = 10 ^ Suc t;
          lo = (x div p) * p;
          hi = lo + p;
          c1 = (if x - lo \<le> hi - x then lo else hi);
          c2 = (if x - lo \<le> hi - x then hi else lo)
      in if round_to_double c1 = Some x then c1
         else if round_to_double c2 = Some x then c2
         else shortest_decimal x t)"

definition exponent_text :: "int \<Rightarrow> string" where
  \<comment> \<open>Exponent notation: the significant digits of \<open>c\<close>, a point after the first when
      there are several, and the decimal exponent.\<close>
  "exponent_text c =
     (let ds = decimal c;
          sig = rev (dropWhile (\<lambda>d. d = CHR ''0'') (rev ds))
      in (case sig of
            [] \<Rightarrow> ''0''
          | [d] \<Rightarrow> [d]
          | d # more \<Rightarrow> d # CHR ''.'' # more)
         @ ''e+'' @ decimal (int (length ds) - 1))"

definition number_text :: "int \<Rightarrow> string" where
  \<comment> \<open>\<^verbatim>\<open>String(x)\<close> for a non-negative integer: all digits below \<open>2^53\<close>; above, the
      shortest digits that read back as the same Number, in exponent notation from
      \<open>10^21\<close>.\<close>
  "number_text n =
     (case round_to_double n of
        None \<Rightarrow> ''Infinity''
      | Some x \<Rightarrow>
          if x < 2 ^ 53 then decimal x
          else
            (let c = shortest_decimal x (length (decimal x) - 1)
             in if x < 10 ^ 21 then decimal c else exponent_text c))"

fun ToString :: "jsval \<Rightarrow> string" where
  \<comment> \<open>\<^verbatim>\<open>String(v)\<close>; an array is joined with commas, \<^verbatim>\<open>null\<close> and \<^verbatim>\<open>undefined\<close>
      elements as empty strings. The text of a native function is the one V8 prints.\<close>
  "ToString JUndefined = ''undefined''"
| "ToString JNull = ''null''"
| "ToString (JBool b) = (if b then ''true'' else ''false'')"
| "ToString (JNum n) = (if n < 0 then CHR ''-'' # number_text (- n) else number_text n)"
| "ToString JInfinity = ''Infinity''"
| "ToString (JStr s) = s"
| "ToString (JArr vs) =
     join '','' (map (\<lambda>v. if v = JUndefined \<or> v = JNull then [] else ToString v) vs)"
| "ToString JObjectPrototype = ''[object Object]''"
| "ToString (JFunction name) = ''function '' @ name @ ''() { [native code] }''"

subsection \<open>The type inference of \<^verbatim>\<open>parseUrlParams\<close>\<close>

definition is_digit :: "char \<Rightarrow> bool" where
  \<comment> \<open>The class \<^verbatim>\<open>\d\<close>: the ASCII digits.\<close>
  "is_digit c = (48 \<le> (of_char c :: nat) \<and> (of_char c :: nat) \<le> 57)"

definition test_digits :: "string \<Rightarrow> bool" where
  \<comment> \<open>\<^verbatim>\<open>/^\d+$/.test(value)\<close>\<close>
  "test_digits s = (s \<noteq> [] \<and> list_all is_digit s)"

definition digits_value :: "string \<Rightarrow> int" where
  \<comment> \<open>The integer a string of digits denotes.\<close>
  "digits_value s = foldl (\<lambda>acc c. 10 * acc + int (of_char c - 48)) 0 s"

definition number_of_int :: "int \<Rightarrow> jsval" where
  \<comment> \<open>The Number value of a non-negative integer.\<close>
  "number_of_int n = (case round_to_double n of Some m \<Rightarrow> JNum m | None \<Rightarrow> JInfinity)"

definition parseInt :: "string \<Rightarrow> jsval" where
  \<comment> \<open>\<^verbatim>\<open>parseInt(value, 10)\<close>, called on strings of digits only: the Number nearest
      to the integer the digits denote, as V8 computes it. (The standard also allows an
      implementation to read the digits after the 20th as zeros.)\<close>
  "parseInt s = number_of_int (digits_value s)"

section \<open>URLSearchParams\<close>

text \<open>
  The browser's \<^verbatim>\<open>URLSearchParams\<close> is a list of name-value pairs. Its string form is
  the \<^verbatim>\<open>application/x-www-form-urlencoded\<close> serialisation, and its constructor runs the
  matching parser (after dropping one leading \<^verbatim>\<open>?\<close>).
\<close>

type_synonym URLSearchParams = "(string \<times> string) list"

definition usp_append :: "URLSearchParams \<Rightarrow> string \<Rightarrow> string \<Rightarrow> URLSearchParams" where
  "usp_append sp name v = sp @ [(name, v)]"

fun usp_set :: "URLSearchParams \<Rightarrow> string \<Rightarrow> string \<Rightarrow> URLSearchParams" where
  \<comment> \<open>\<^verbatim>\<open>set\<close>: the first pair of that name takes the value and the others go;
      without such a pair, append.\<close>
  "usp_set [] name v = [(name, v)]"
| "usp_set (p # sp) name v =
     (if fst p = name then (name, v) # filter (\<lambda>q. fst q \<noteq> name) sp
      else p # usp_set sp name v)"

definition urlencoded_unreserved :: "char \<Rightarrow> bool" where
  \<comment> \<open>Bytes the serialiser leaves as they are: ASCII alphanumerics and \<^verbatim>\<open>*-._\<close>.\<close>
  "urlencoded_unreserved c =
     (let n = (of_char c :: nat)
      in (48 \<le> n \<and> n \<le> 57) \<or> (65 \<le> n \<and> n \<le> 90) \<or> (97 \<le> n \<and> n \<le> 122)
         \<or> n = 42 \<or> n = 45 \<or> n = 46 \<or> n = 95)"

definition hex_digit :: "nat \<Rightarrow> char" where
  "hex_digit d = (if d < 10 then char_of (48 + d) else char_of (55 + d))"

definition percent_encode_byte :: "char \<Rightarrow> string" where
  "percent_encode_byte c =
     [CHR ''%'', hex_digit ((of_char c :: nat) div 16), hex_digit ((of_char c :: nat) mod 16)]"

definition urlencoded_byte :: "char \<Rightarrow> string" where
  "urlencoded_byte c =
     (if c = CHR '' '' then ''+''
      else if urlencoded_unreserved c then [c]
      else percent_encode_byte c)"

definition urlencoded_string :: "string \<Rightarrow> string" where
  "urlencoded_string s = concat (map urlencoded_byte s)"

definition usp_toString :: "URLSearchParams \<Rightarrow> string" where
  "usp_toString sp =
     join ''&'' (map (\<lambda>(name, v). urlencoded_string name @ ''='' @ urlencoded_string v) sp)"

fun split_acc :: "char \<Rightarrow> string \<Rightarrow> string \<Rightarrow> string list" where
  "split_acc d cur [] = [cur]"
| "split_acc d cur (c # cs) =
     (if c = d then cur # split_acc d [] cs else split_acc d (cur @ [c]) cs)"

definition split_on :: "char \<Rightarrow> string \<Rightarrow> string list" where
  "split_on d s = split_acc d [] s"

definition hex_value :: "char \<Rightarrow> nat option" where
  "hex_value c =
     (let n = (of_char c :: nat)
      in if 48 \<le> n \<and> n \<le> 57 then Some (n - 48)
         else if 65 \<le> n \<and> n \<le> 70 then Some (n - 55)
         else if 97 \<le> n \<and> n \<le> 102 then Some (n - 87)
         else None)"

fun percent_decode :: "string \<Rightarrow> string" where
  "percent_decode (c # h # l # cs) =
     (if c = CHR ''%'' then
        (case (hex_value h, hex_value l) of
           (Some a, Some b) \<Rightarrow> char_of (16 * a + b) # percent_decode cs
         | _ \<Rightarrow> c # percent_decode (h # l # cs))
      else c # percent_decode (h # l # cs))"
| "percent_decode cs = cs"

definition plus_to_space :: "string \<Rightarrow> string" where
  "plus_to_space s = map (\<lambda>c. if c = CHR ''+'' then CHR '' '' else c) s"

definition urlencoded_parse_pair :: "string \<Rightarrow> string \<times> string" where
  \<comment> \<open>Name and value part at the first \<^verbatim>\<open>=\<close>; without one the value is empty.\<close>
  "urlencoded_parse_pair s =
     (let name = takeWhile (\<lambda>c. c \<noteq> CHR ''='') s;
          v = drop (length name + 1) s
      in (percent_decode (plus_to_space name), percent_decode (plus_to_space v)))"

definition urlencoded_parse :: "string \<Rightarrow> URLSearchParams" where
  "urlencoded_parse input =
     map urlencoded_parse_pair (filter (\<lambda>s. s \<noteq> []) (split_on CHR ''&'' input))"

definition new_URLSearchParams :: "string \<Rightarrow> URLSearchParams" where
  "new_URLSearchParams init =
     urlencoded_parse (case init of c # cs \<Rightarrow> (if c = CHR ''?'' then cs else init) | [] \<Rightarrow> [])"

section \<open>The browser window\<close>

text \<open>
  The session history is a zipper around the current entry; every entry is the part of
  its URL after the origin (path, query and fragment). \<^verbatim>\<open>window.location\<close> reads the
  current entry. \<open>pending_scrollTo\<close> holds the vertical offsets of the
  \<^verbatim>\<open>scrollTo\<close> calls that \<^verbatim>\<open>setTimeout\<close> has queued.
\<close>

record window =
  history_back :: "string list"
  location_href :: string
  history_forward :: "string list"
  scrollY :: int
  pending_scrollTo :: "int list"

definition location_pathname :: "window \<Rightarrow> string" where
  "location_pathname w = takeWhile (\<lambda>c. c \<noteq> CHR ''?'' \<and> c \<noteq> CHR ''#'') (location_href w)"

definition location_search :: "window \<Rightarrow> string" where
  \<comment> \<open>The query with its \<^verbatim>\<open>?\<close>; empty when the URL has no query or an empty one.\<close>
  "location_search w =
     (let q = takeWhile (\<lambda>c. c \<noteq> CHR ''#'')
                (dropWhile (\<lambda>c. c \<noteq> CHR ''?'' \<and> c \<noteq> CHR ''#'') (location_href w))
      in if q = ''?'' then [] else q)"

definition location_hash :: "window \<Rightarrow> string" where
  \<comment> \<open>The fragment with its \<^verbatim>\<open>#\<close>; empty when the URL has no fragment or an empty one.\<close>
  "location_hash w =
     (let h = dropWhile (\<lambda>c. c \<noteq> CHR ''#'') (location_href w)
      in if h = ''#'' then [] else h)"

definition history_length :: "window \<Rightarrow> nat" where
  "history_length w = length (history_back w) + 1 + length (history_forward w)"

definition history_pushState :: "string \<Rightarrow> window \<Rightarrow> window" where
  \<comment> \<open>A new entry after the current one; the entries ahead are dropped.\<close>
  "history_pushState url w =
     w\<lparr>history_back := location_href w # history_back w,
       location_href := url,
       history_forward := []\<rparr>"

definition history_replaceState :: "string \<Rightarrow> window \<Rightarrow> window" where
  "history_replaceState url w = w\<lparr>location_href := url\<rparr>"

section \<open>URL state helpers (\<^verbatim>\<open>lib/urlState.ts\<close>)\<close>

definition getUrlParams :: "window \<Rightarrow> URLSearchParams" where
  "getUrlParams w = new_URLSearchParams (location_search w)"

definition Object_prototype_names :: "string list" where
  \<comment> \<open>The string-keyed properties of \<^verbatim>\<open>Object.prototype\<close>.\<close>
  "Object_prototype_names =
     [''constructor'', ''__defineGetter__'', ''__defineSetter__'', ''hasOwnProperty'',
      ''__lookupGetter__'', ''__lookupSetter__'', ''isPrototypeOf'', ''propertyIsEnumerable'',
      ''toString'', ''valueOf'', ''__proto__'', ''toLocaleString'']"

definition Array_prototype_names :: "string list" where
  \<comment> \<open>The string-keyed properties of \<^verbatim>\<open>Array.prototype\<close> (ECMAScript 2023).\<close>
  "Array_prototype_names =
     [''length'', ''constructor'', ''at'', ''concat'', ''copyWithin'', ''fill'', ''find'',
      ''findIndex'', ''findLast'', ''findLastIndex'', ''lastIndexOf'', ''pop'', ''push'',
      ''reverse'', ''shift'', ''unshift'', ''slice'', ''sort'', ''splice'', ''includes'',
      ''indexOf'', ''join'', ''keys'', ''entries'', ''values'', ''forEach'', ''filter'',
      ''flat'', ''flatMap'', ''map'', ''every'', ''some'', ''reduce'', ''reduceRight'',
      ''toLocaleString'', ''toString'', ''toReversed'', ''toSorted'', ''toSpliced'', ''with'']"

record js_object =
  own_props :: jsobj
  proto_array :: "jsval list option"

text \<open>
  \<open>js_object\<close> is the object \<^verbatim>\<open>result\<close> of \<^verbatim>\<open>parseUrlParams\<close>: its own properties and
  its prototype, which is \<^verbatim>\<open>Object.prototype\<close> (\<open>None\<close>) until an assignment to
  \<^verbatim>\<open>result["__proto__"]\<close> runs the inherited setter and installs the assigned array
  (\<open>Some xs\<close>).
\<close>

definition from_Object_prototype :: "string \<Rightarrow> jsval" where
  \<comment> \<open>A data property of \<^verbatim>\<open>Object.prototype\<close>; the accessor \<^verbatim>\<open>__proto__\<close> is read in
      \<open>get_property\<close>.\<close>
  "from_Object_prototype key =
     (if key = ''constructor'' then JFunction ''Object''
      else if key \<in> set Object_prototype_names \<and> key \<noteq> ''__proto__'' then JFunction key
      else JUndefined)"

definition from_array :: "jsval list \<Rightarrow> string \<Rightarrow> jsval" where
  \<comment> \<open>A property read through an array: its length, its elements under their indices,
      then \<^verbatim>\<open>Array.prototype\<close>, then \<^verbatim>\<open>Object.prototype\<close>.\<close>
  "from_array xs key =
     (if key = ''length'' then JNum (int (length xs))
      else case filter (\<lambda>i. decimal (int i) = key) [0..<length xs] of
             i # _ \<Rightarrow> xs ! i
           | [] \<Rightarrow>
               if key = ''constructor'' then JFunction ''Array''
               else if key \<in> set Array_prototype_names then JFunction key
               else from_Object_prototype key)"

definition get_property :: "js_object \<Rightarrow> string \<Rightarrow> jsval" where
  \<comment> \<open>\<^verbatim>\<open>result[key]\<close>: the own property, else the prototype chain. The getter of
      \<^verbatim>\<open>__proto__\<close> returns the prototype.\<close>
  "get_property obj key =
     (case map_of (own_props obj) key of
        Some v \<Rightarrow> v
      | None \<Rightarrow>
          (case proto_array obj of
             None \<Rightarrow> if key = ''__proto__'' then JObjectPrototype else from_Object_prototype key
           | Some xs \<Rightarrow> if key = ''__proto__'' then JArr xs else from_array xs key))"

definition set_property :: "js_object \<Rightarrow> string \<Rightarrow> jsval \<Rightarrow> js_object" where
  \<comment> \<open>\<^verbatim>\<open>result[key] = v\<close>: an own property is overwritten and a new one is added (the
      inherited data properties are all writable), except that \<^verbatim>\<open>__proto__\<close>, when it
      is not an own property, runs the inherited setter: an array becomes the prototype
      and a primitive is ignored. (The loop assigns arrays and primitives only.)\<close>
  "set_property obj key v =
     (if map_of (own_props obj) key \<noteq> None \<or> key \<noteq> ''__proto__''
      then obj\<lparr>own_props := obj_set (own_props obj) key v\<rparr>
      else (case v of JArr xs \<Rightarrow> obj\<lparr>proto_array := Some xs\<rparr> | _ \<Rightarrow> obj))"

definition parse_entry :: "js_object \<Rightarrow> string \<times> string \<Rightarrow> js_object" where
  \<comment> \<open>The callback of \<^verbatim>\<open>params.forEach\<close>, with \<open>result\<close> passed along.\<close>
  "parse_entry result p =
     (case p of (key, v) \<Rightarrow>
        if get_property result key \<noteq> JUndefined then
          (let existing = get_property result key
           in case existing of
                JArr xs \<Rightarrow> set_property result key (JArr (xs @ [JStr v]))
              | _ \<Rightarrow> set_property result key (JArr [existing, JStr v]))
        else if v = ''true'' then set_property result key (JBool True)
        else if v = ''false'' then set_property result key (JBool False)
        else if test_digits v then set_property result key (parseInt v)
        else set_property result key (JStr v))"

definition parseUrlParams :: "jsobj option \<Rightarrow> window \<Rightarrow> jsobj" where
  \<comment> \<open>The object is returned as the list of its own properties.\<close>
  "parseUrlParams defaults w =
     (let params = getUrlParams w;
          result = \<lparr>own_props = spread_opt [] defaults, proto_array = None\<rparr>
      in own_props (foldl parse_entry result params))"

subsection \<open>Exceptions\<close>

text \<open>
  The code has no \<^verbatim>\<open>throw\<close>. Of the operations in \<^verbatim>\<open>parseUrlParams\<close> one can raise in
  JavaScript: the spread \<^verbatim>\<open>[...existing, value]\<close> raises a TypeError when \<^verbatim>\<open>existing\<close>
  is not iterable. (The assignments cannot: every inherited data property is writable
  and \<^verbatim>\<open>__proto__\<close> has a setter.) The definitions below are the loop with that
  exception made explicit; an exception ends the loop.
\<close>

datatype js_error = TypeError

definition Array_isArray :: "jsval \<Rightarrow> bool" where
  "Array_isArray v = (case v of JArr xs \<Rightarrow> True | _ \<Rightarrow> False)"

definition spread_elements :: "jsval \<Rightarrow> js_error + jsval list" where
  \<comment> \<open>\<^verbatim>\<open>...v\<close> in an array literal: the elements of an array, the characters of a
      string, a TypeError for anything else.\<close>
  "spread_elements v =
     (case v of
        JArr xs \<Rightarrow> Inr xs
      | JStr s \<Rightarrow> Inr (map (\<lambda>c. JStr [c]) s)
      | _ \<Rightarrow> Inl TypeError)"

definition parse_entry_exc :: "js_object \<Rightarrow> string \<times> string \<Rightarrow> js_error + js_object" where
  "parse_entry_exc result p =
     (case p of (key, v) \<Rightarrow>
        if get_property result key \<noteq> JUndefined then
          (let existing = get_property result key
           in if Array_isArray existing then
                (case spread_elements existing of
                   Inl e \<Rightarrow> Inl e
                 | Inr xs \<Rightarrow> Inr (set_property result key (JArr (xs @ [JStr v]))))
              else Inr (set_property result key (JArr [existing, JStr v])))
        else if v = ''true'' then Inr (set_property result key (JBool True))
        else if v = ''false'' then Inr (set_property result key (JBool False))
        else if test_digits v then Inr (set_property result key (parseInt v))
        else Inr (set_property result key (JStr v)))"

fun forEach_exc :: "js_object \<Rightarrow> URLSearchParams \<Rightarrow> js_error + js_object" where
  "forEach_exc result [] = Inr result"
| "forEach_exc result (p # ps) =
     (case parse_entry_exc result p of Inl e \<Rightarrow> Inl e | Inr result' \<Rightarrow> forEach_exc result' ps)"

definition parseUrlParams_exc :: "jsobj option \<Rightarrow> window \<Rightarrow> js_error + jsobj" where
  "parseUrlParams_exc defaults w =
     (let params = getUrlParams w;
          result = \<lparr>own_props = spread_opt [] defaults, proto_array = None\<rparr>
      in case forEach_exc result params of Inl e \<Rightarrow> Inl e | Inr r \<Rightarrow> Inr (own_props r))"

definition build_entry :: "URLSearchParams \<Rightarrow> string \<times> jsval \<Rightarrow> URLSearchParams" where
  \<comment> \<open>The callback of \<^verbatim>\<open>Object.entries(params).forEach\<close>, with \<open>searchParams\<close> passed
      along.\<close>
  "build_entry searchParams e =
     (case e of (key, v) \<Rightarrow>
        if v = JUndefined \<or> v = JNull \<or> v = JStr [] then searchParams
        else case v of
               JArr vs \<Rightarrow> foldl (\<lambda>sp x. usp_append sp key (ToString x)) searchParams vs
             | _ \<Rightarrow> usp_set searchParams key (ToString v))"

definition build_searchParams :: "jsobj \<Rightarrow> URLSearchParams" where
  "build_searchParams params = foldl build_entry [] params"

definition buildQueryString :: "jsobj \<Rightarrow> string" where
  "buildQueryString params =
     (let qs = usp_toString (build_searchParams params)
      in if qs \<noteq> [] then ''?'' @ qs else [])"

record url_options =
  opt_replace :: "bool option"
  opt_scroll :: "bool option"

definition truthy_opt :: "(url_options \<Rightarrow> bool option) \<Rightarrow> url_options option \<Rightarrow> bool" where
  \<comment> \<open>\<^verbatim>\<open>options?.field\<close> as a condition.\<close>
  "truthy_opt field options = (case options of None \<Rightarrow> False | Some opts \<Rightarrow> field opts = Some True)"

definition setUrlParams :: "jsobj \<Rightarrow> url_options option \<Rightarrow> window \<Rightarrow> window" where
  "setUrlParams params options w =
     (let qs = buildQueryString params;
          url = location_pathname w @ qs @ location_hash w;
          w1 = (if truthy_opt opt_replace options then history_replaceState url w
                else history_pushState url w)
      in if \<not> truthy_opt opt_scroll options
         then w1\<lparr>pending_scrollTo := pending_scrollTo w1 @ [scrollY w1]\<rparr>
         else w1)"

definition updateUrlParams :: "jsobj \<Rightarrow> url_options option \<Rightarrow> window \<Rightarrow> window" where
  "updateUrlParams updates options w =
     (let current = parseUrlParams None w
      in setUrlParams (spread (spread [] current) updates) options w)"

definition removeUrlParams :: "string list \<Rightarrow> url_options option \<Rightarrow> window \<Rightarrow> window" where
  "removeUrlParams keys options w =
     (let current = parseUrlParams None w;
          next = foldl obj_delete (spread [] current) keys
      in setUrlParams next options w)"

definition table_defaults :: "jsobj option \<Rightarrow> jsobj" where
  \<comment> \<open>\<^verbatim>\<open>{ page: 1, pageSize: 10, ...defaults }\<close>\<close>
  "table_defaults defaults =
     spread_opt [(''page'', JNum 1), (''pageSize'', JNum 10)] defaults"

definition parseTableParams :: "jsobj option \<Rightarrow> window \<Rightarrow> jsobj" where
  "parseTableParams defaults w = parseUrlParams (Some (table_defaults defaults)) w"

definition setTableParams :: "jsobj \<Rightarrow> url_options option \<Rightarrow> window \<Rightarrow> window" where
  \<comment> \<open>\<^verbatim>\<open>{ replace: true, ...options }\<close>: a field of \<open>options\<close> wins where it is present.\<close>
  "setTableParams params options w =
     setUrlParams params
       (Some (case options of
                None \<Rightarrow> \<lparr>opt_replace = Some True, opt_scroll = None\<rparr>
              | Some opts \<Rightarrow>
                  \<lparr>opt_replace = (case opt_replace opts of None \<Rightarrow> Some True | Some b \<Rightarrow> Some b),
                   opt_scroll = opt_scroll opts\<rparr>)) w"

section \<open>React bindings (\<^verbatim>\<open>hooks/useUrlState.ts\<close>)\<close>

text \<open>
  A hook instance is its React state together with the window it acts on. Each
  operation is the callback of the latest render, so it reads the state the previous
  operation has set. The generic hook's state can become \<^verbatim>\<open>undefined\<close>
  (\<open>None\<close>), since \<^verbatim>\<open>reset\<close> stores \<^verbatim>\<open>defaults\<close> as it is.
\<close>

definition useUrlState_init :: "jsobj option \<Rightarrow> window \<Rightarrow> jsobj option" where
  "useUrlState_init defaults w = Some (parseUrlParams defaults w)"

definition useUrlState_handlePopState ::
  "jsobj option \<Rightarrow> jsobj option \<times> window \<Rightarrow> jsobj option \<times> window" where
  "useUrlState_handlePopState defaults sw =
     (case sw of (state, w) \<Rightarrow> (Some (parseUrlParams defaults w), w))"

definition useUrlState_set ::
  "jsobj \<Rightarrow> jsobj option \<times> window \<Rightarrow> jsobj option \<times> window" where
  "useUrlState_set params sw =
     (case sw of (state, w) \<Rightarrow> (Some params, setUrlParams params None w))"

definition useUrlState_update ::
  "jsobj \<Rightarrow> jsobj option \<times> window \<Rightarrow> jsobj option \<times> window" where
  "useUrlState_update params sw =
     (case sw of (state, w) \<Rightarrow>
        (let next = spread (spread_opt [] state) params
         in (Some next, updateUrlParams params None w)))"

definition useUrlState_remove ::
  "string list \<Rightarrow> jsobj option \<times> window \<Rightarrow> jsobj option \<times> window" where
  "useUrlState_remove keys sw =
     (case sw of (state, w) \<Rightarrow>
        (let next = foldl obj_delete (spread_opt [] state) keys
         in (Some next, removeUrlParams keys None w)))"

definition useUrlState_reset ::
  "jsobj option \<Rightarrow> jsobj option \<times> window \<Rightarrow> jsobj option \<times> window" where
  \<comment> \<open>\<^verbatim>\<open>setState(next); setUrlParams(next ?? {})\<close> with \<^verbatim>\<open>next = defaults\<close>\<close>
  "useUrlState_reset defaults sw =
     (case sw of (state, w) \<Rightarrow>
        (let next = defaults
         in (next, setUrlParams (case next of None \<Rightarrow> [] | Some d \<Rightarrow> d) None w)))"

definition useTableUrlState_init :: "jsobj option \<Rightarrow> window \<Rightarrow> jsobj" where
  "useTableUrlState_init defaults w = parseTableParams defaults w"

definition useTableUrlState_handlePopState ::
  "jsobj option \<Rightarrow> jsobj \<times> window \<Rightarrow> jsobj \<times> window" where
  "useTableUrlState_handlePopState defaults sw =
     (case sw of (state, w) \<Rightarrow> (parseTableParams defaults w, w))"

definition setAndSync :: "jsobj \<Rightarrow> jsobj \<times> window \<Rightarrow> jsobj \<times> window" where
  "setAndSync params sw = (case sw of (state, w) \<Rightarrow> (params, setTableParams params None w))"

definition setPage :: "int \<Rightarrow> jsobj \<times> window \<Rightarrow> jsobj \<times> window" where
  "setPage page sw = setAndSync (spread (spread [] (fst sw)) [(''page'', JNum page)]) sw"

definition setPageSize :: "int \<Rightarrow> jsobj \<times> window \<Rightarrow> jsobj \<times> window" where
  "setPageSize pageSize sw =
     setAndSync
       (spread (spread [] (fst sw)) [(''page'', JNum 1), (''pageSize'', JNum pageSize)]) sw"

definition setSearch :: "string \<Rightarrow> jsobj \<times> window \<Rightarrow> jsobj \<times> window" where
  \<comment> \<open>\<^verbatim>\<open>search || undefined\<close>: the empty string is the only falsy string.\<close>
  "setSearch search sw =
     setAndSync
       (spread (spread [] (fst sw))
          [(''page'', JNum 1), (''search'', if search \<noteq> [] then JStr search else JUndefined)]) sw"

datatype sort_order = Asc | Desc

definition sort_order_val :: "sort_order \<Rightarrow> jsval" where
  "sort_order_val ord = (case ord of Asc \<Rightarrow> JStr ''asc'' | Desc \<Rightarrow> JStr ''desc'')"

definition setSort :: "string \<Rightarrow> sort_order \<Rightarrow> jsobj \<times> window \<Rightarrow> jsobj \<times> window" where
  "setSort sortField sortOrder sw =
     setAndSync
       (spread (spread [] (fst sw))
          [(''sortField'', JStr sortField), (''sortOrder'', sort_order_val sortOrder)]) sw"

definition setFilter :: "string \<Rightarrow> jsval \<Rightarrow> jsobj \<times> window \<Rightarrow> jsobj \<times> window" where
  "setFilter key v sw =
     setAndSync
       (spread (spread [] (fst sw))
          [(''page'', JNum 1), (key, if v = JStr [] then JUndefined else v)]) sw"

definition useTableUrlState_reset ::
  "jsobj option \<Rightarrow> jsobj \<times> window \<Rightarrow> jsobj \<times> window" where
  "useTableUrlState_reset defaults sw =
     (case sw of (state, w) \<Rightarrow>
        (let next = table_defaults defaults
         in (next, setTableParams next None w)))"

section \<open>Notions used in the statements\<close>

definition is_object :: "jsobj \<Rightarrow> bool" where
  \<comment> \<open>The keys of an object are distinct.\<close>
  "is_object obj = distinct (map fst obj)"

definition usp_getAll :: "URLSearchParams \<Rightarrow> string \<Rightarrow> string list" where
  \<comment> \<open>\<^verbatim>\<open>getAll(name)\<close>: the values of the pairs of that name, in order.\<close>
  "usp_getAll sp name = map snd (filter (\<lambda>p. fst p = name) sp)"

definition infer_value :: "string \<Rightarrow> jsval" where
  \<comment> \<open>What the type inference branch of \<open>parse_entry\<close> stores.\<close>
  "infer_value v =
     (if v = ''true'' then JBool True
      else if v = ''false'' then JBool False
      else if test_digits v then parseInt v
      else JStr v)"

definition merge_value :: "jsval \<Rightarrow> string \<Rightarrow> jsval" where
  \<comment> \<open>What \<open>parse_entry\<close> stores under a key that read as \<open>existing\<close>.\<close>
  "merge_value existing v =
     (if existing \<noteq> JUndefined then
        (case existing of JArr xs \<Rightarrow> JArr (xs @ [JStr v]) | _ \<Rightarrow> JArr [existing, JStr v])
      else infer_value v)"

definition plain_query :: "URLSearchParams \<Rightarrow> bool" where
  \<comment> \<open>No pair is named \<^verbatim>\<open>__proto__\<close>.\<close>
  "plain_query sp = (''__proto__'' \<notin> fst ` set sp)"

definition defaults_get :: "jsobj option \<Rightarrow> string \<Rightarrow> jsval" where
  \<comment> \<open>What the copy \<^verbatim>\<open>{ ...defaults }\<close> holds under a key.\<close>
  "defaults_get defaults key = obj_get (spread_opt [] defaults) key"

definition roundtrip_value :: "jsval \<Rightarrow> bool" where
  \<comment> \<open>The values that \<open>buildQueryString\<close> writes and the type inference reads back
      unchanged: booleans, the non-negative integer Numbers below \<open>10^21\<close>, and the
      strings that are neither empty, nor \<^verbatim>\<open>true\<close> or \<^verbatim>\<open>false\<close>, nor made of digits
      only.\<close>
  "roundtrip_value v =
     (case v of
        JStr s \<Rightarrow> s \<noteq> [] \<and> s \<noteq> ''true'' \<and> s \<noteq> ''false'' \<and> \<not> test_digits s
      | JBool b \<Rightarrow> True
      | JNum n \<Rightarrow> 0 \<le> n \<and> n < 10 ^ 21 \<and> round_to_double n = Some n
      | _ \<Rightarrow> False)"

definition omitted :: "jsval \<Rightarrow> bool" where
  \<comment> \<open>The values \<open>build_entry\<close> skips.\<close>
  "omitted v = (v = JUndefined \<or> v = JNull \<or> v = JStr [])"

definition demo_at :: "string \<Rightarrow> window" where
  \<comment> \<open>A window used for the concrete instances: at the given URL, one entry behind, none
      ahead.\<close>
  "demo_at href =
     \<lparr>history_back = [''/home''], location_href = href,
      history_forward = [], scrollY = 120, pending_scrollTo = []\<rparr>"

definition demo_window :: window where
  "demo_window =
     \<lparr>history_back = [''/home''], location_href = ''/users?tab=all#top'',
      history_forward = [], scrollY = 120, pending_scrollTo = []\<rparr>"

definition demo_state :: jsobj where
  "demo_state = [(''page'', JNum 5), (''pageSize'', JNum 10)]"

section \<open>Objects\<close>

lemma obj_get_obj_set: "obj_get (obj_set obj k v) k' = (if k' = k then v else obj_get obj k')"
  by (simp add: obj_get_def obj_set_def update_conv')

lemma is_object_obj_set: "is_object obj \<Longrightarrow> is_object (obj_set obj k v)"
  by (simp add: is_object_def obj_set_def distinct_update)

lemma obj_set_fresh: "k \<notin> fst ` set obj \<Longrightarrow> obj_set obj k v = obj @ [(k, v)]"
  by (induction obj) (auto simp add: obj_set_def)

lemma obj_get_fresh: "k \<notin> fst ` set obj \<Longrightarrow> obj_get obj k = JUndefined"
  by (simp add: obj_get_def map_of_eq_None_iff [THEN iffD2])

lemma obj_get_member: "is_object obj \<Longrightarrow> (k, v) \<in> set obj \<Longrightarrow> obj_get obj k = v"
  by (simp add: obj_get_def is_object_def)

lemma obj_get_Nil: "obj_get [] k = JUndefined"
  by (simp add: obj_get_def)

lemma obj_get_Cons: "obj_get ((k', v) # obj) k = (if k = k' then v else obj_get obj k)"
  by (simp add: obj_get_def)

lemma spread_Nil: "spread obj [] = obj"
  by (simp add: spread_def)

lemma spread_Cons: "spread obj ((k, v) # src) = spread (obj_set obj k v) src"
  by (simp add: spread_def)

lemma spread_append_fresh:
  "is_object src \<Longrightarrow> fst ` set obj \<inter> fst ` set src = {} \<Longrightarrow> spread obj src = obj @ src"
proof (induction src arbitrary: obj)
  case Nil
  then show ?case by (simp add: spread_Nil)
next
  case (Cons p src)
  obtain k v where p: "p = (k, v)" by (cases p)
  have fresh: "k \<notin> fst ` set obj"
    using Cons.prems(2) p by auto
  have "spread (obj @ [(k, v)]) src = (obj @ [(k, v)]) @ src"
    using Cons.prems p by (intro Cons.IH) (auto simp add: is_object_def)
  then show ?case
    using fresh p by (simp add: spread_Cons obj_set_fresh)
qed

lemma spread_empty: "is_object src \<Longrightarrow> spread [] src = src"
  using spread_append_fresh [of src "[]"] by simp

lemma obj_get_spread:
  "is_object src \<Longrightarrow>
   obj_get (spread obj src) k = (if k \<in> fst ` set src then obj_get src k else obj_get obj k)"
proof (induction src arbitrary: obj)
  case Nil
  then show ?case by (simp add: spread_Nil)
next
  case (Cons p src)
  obtain k' v where p: "p = (k', v)" by (cases p)
  have obj: "is_object src" and notin: "k' \<notin> fst ` set src"
    using Cons.prems p by (auto simp add: is_object_def)
  show ?case
    using Cons.IH [OF obj, of "obj_set obj k' v"] notin p
    by (auto simp add: spread_Cons obj_get_obj_set obj_get_Cons)
qed

lemma is_object_spread: "is_object obj \<Longrightarrow> is_object (spread obj src)"
  by (induction src arbitrary: obj) (auto simp add: spread_Nil spread_Cons is_object_obj_set)

section \<open>The form-urlencoded codec\<close>

lemma byte_div_16: "(of_char c :: nat) div 16 < 16"
  using nat_of_char_less_256 [of c] by (simp add: less_mult_imp_div_less)

lemma hex_value_hex_digit: "d < 16 \<Longrightarrow> hex_value (hex_digit d) = Some d"
  by (auto simp add: hex_value_def hex_digit_def Let_def)

lemma of_char_hex_digit:
  "d < 16 \<Longrightarrow> (of_char (hex_digit d) :: nat) = (if d < 10 then 48 + d else 55 + d)"
  by (simp add: hex_digit_def)

lemma percent_decode_plain:
  "c \<noteq> CHR ''%'' \<Longrightarrow> percent_decode (c # cs) = c # percent_decode cs"
proof (cases cs)
  case Nil
  then show ?thesis by simp
next
  case (Cons a as)
  then show "c \<noteq> CHR ''%'' \<Longrightarrow> ?thesis" by (cases as) simp_all
qed

lemma percent_decode_encoded:
  "percent_decode (percent_encode_byte c @ rest) = c # percent_decode rest"
proof -
  let ?n = "of_char c :: nat"
  have lt: "?n div 16 < 16" "?n mod 16 < 16"
    by (simp_all add: byte_div_16)
  have "char_of (16 * (?n div 16) + ?n mod 16) = c"
    by simp
  then show ?thesis
    by (simp add: percent_encode_byte_def hex_value_hex_digit lt)
qed

lemma unreserved_not_special:
  "urlencoded_unreserved c \<Longrightarrow>
     c \<noteq> CHR ''%'' \<and> c \<noteq> CHR ''+'' \<and> c \<noteq> CHR ''&'' \<and> c \<noteq> CHR ''='' \<and> c \<noteq> CHR ''#''"
  by (auto simp add: urlencoded_unreserved_def Let_def)

lemma hex_digit_not_special:
  assumes "d < 16"
  shows "hex_digit d \<noteq> CHR ''+'' \<and> hex_digit d \<noteq> CHR ''&'' \<and> hex_digit d \<noteq> CHR ''=''
         \<and> hex_digit d \<noteq> CHR ''#''"
proof -
  have "(of_char (hex_digit d) :: nat) \<notin> {43, 38, 61, 35}"
    using assms by (simp add: of_char_hex_digit)
  moreover have "(of_char (CHR ''+'') :: nat) = 43" "(of_char (CHR ''&'') :: nat) = 38"
    "(of_char (CHR ''='') :: nat) = 61" "(of_char (CHR ''#'') :: nat) = 35"
    by simp_all
  ultimately show ?thesis
    by (metis insertCI)
qed

lemma urlencoded_byte_chars:
  assumes "x \<in> set (urlencoded_byte c)"
  shows "x \<noteq> CHR ''&'' \<and> x \<noteq> CHR ''='' \<and> x \<noteq> CHR ''#''"
proof -
  let ?n = "of_char c :: nat"
  have lt: "?n div 16 < 16" "?n mod 16 < 16"
    by (simp_all add: byte_div_16)
  show ?thesis
    using assms unreserved_not_special [of c] hex_digit_not_special [OF lt(1)]
      hex_digit_not_special [OF lt(2)]
    by (auto simp add: urlencoded_byte_def percent_encode_byte_def split: if_splits)
qed

lemma urlencoded_string_chars:
  "x \<in> set (urlencoded_string s) \<Longrightarrow> x \<noteq> CHR ''&'' \<and> x \<noteq> CHR ''='' \<and> x \<noteq> CHR ''#''"
  using urlencoded_byte_chars by (auto simp add: urlencoded_string_def)

lemma plus_to_space_byte:
  "plus_to_space (urlencoded_byte c) =
     (if c = CHR '' '' then '' '' else urlencoded_byte c)"
proof -
  let ?n = "of_char c :: nat"
  have lt: "?n div 16 < 16" "?n mod 16 < 16"
    by (simp_all add: byte_div_16)
  show ?thesis
    using unreserved_not_special [of c] hex_digit_not_special [OF lt(1)]
      hex_digit_not_special [OF lt(2)]
    by (simp add: urlencoded_byte_def percent_encode_byte_def plus_to_space_def)
qed

lemma decode_encoded_byte:
  "percent_decode (plus_to_space (urlencoded_byte c) @ rest) = c # percent_decode rest"
proof (cases "c = CHR '' ''")
  case True
  then show ?thesis
    by (simp add: plus_to_space_byte percent_decode_plain)
next
  case False
  show ?thesis
  proof (cases "urlencoded_unreserved c")
    case True
    with False unreserved_not_special [of c] show ?thesis
      by (simp add: urlencoded_byte_def plus_to_space_def percent_decode_plain)
  next
    case unres: False
    with False have "plus_to_space (urlencoded_byte c) = percent_encode_byte c"
      using plus_to_space_byte [of c] by (simp add: urlencoded_byte_def)
    then show ?thesis
      by (simp add: percent_decode_encoded)
  qed
qed

lemma plus_to_space_append: "plus_to_space (a @ b) = plus_to_space a @ plus_to_space b"
  by (simp add: plus_to_space_def)

lemma decode_encoded_string: "percent_decode (plus_to_space (urlencoded_string s)) = s"
proof (induction s)
  case Nil
  then show ?case by (simp add: urlencoded_string_def plus_to_space_def)
next
  case (Cons c s)
  have "urlencoded_string (c # s) = urlencoded_byte c @ urlencoded_string s"
    by (simp add: urlencoded_string_def)
  then show ?case
    using Cons.IH by (simp add: plus_to_space_append decode_encoded_byte)
qed


lemma split_acc_plain: "d \<notin> set x \<Longrightarrow> split_acc d cur x = [cur @ x]"
  by (induction x arbitrary: cur) auto

lemma split_acc_sep:
  "d \<notin> set x \<Longrightarrow> split_acc d cur (x @ d # rest) = (cur @ x) # split_acc d [] rest"
  by (induction x arbitrary: cur) auto

lemma split_on_join:
  assumes "xs \<noteq> []" and "\<And>x. x \<in> set xs \<Longrightarrow> d \<notin> set x"
  shows "split_on d (join [d] xs) = xs"
  using assms
proof (induction xs rule: induct_list012)
  case 1
  then show ?case by simp
next
  case (2 x)
  then show ?case by (simp add: split_on_def split_acc_plain)
next
  case (3 x y zs)
  then show ?case
    by (simp add: split_on_def split_acc_sep)
qed

lemma parse_pair_encoded:
  "urlencoded_parse_pair (urlencoded_string name @ CHR ''='' # urlencoded_string v) = (name, v)"
proof -
  have "\<forall>x\<in>set (urlencoded_string name). x \<noteq> CHR ''=''"
    using urlencoded_string_chars by blast
  then have "takeWhile (\<lambda>c. c \<noteq> CHR ''='')
      (urlencoded_string name @ CHR ''='' # urlencoded_string v) = urlencoded_string name"
    by (simp add: takeWhile_tail)
  then show ?thesis
    by (simp add: urlencoded_parse_pair_def decode_encoded_string)
qed

lemma urlencoded_parse_toString: "urlencoded_parse (usp_toString sp) = sp"
proof (cases "sp = []")
  case True
  then show ?thesis
    by (simp add: urlencoded_parse_def usp_toString_def split_on_def)
next
  case False
  let ?f = "\<lambda>(name, v). urlencoded_string name @ ''='' @ urlencoded_string v"
  have amp: "CHR ''&'' \<notin> set x" if "x \<in> set (map ?f sp)" for x
    using that urlencoded_string_chars by fastforce
  have "split_on CHR ''&'' (join ''&'' (map ?f sp)) = map ?f sp"
    using False amp by (intro split_on_join) simp_all
  moreover have "filter (\<lambda>s. s \<noteq> []) (map ?f sp) = map ?f sp"
    by (induction sp) auto
  moreover have "map urlencoded_parse_pair (map ?f sp) = sp"
    by (induction sp) (auto simp add: parse_pair_encoded)
  ultimately show ?thesis
    by (simp add: urlencoded_parse_def usp_toString_def)
qed

lemma new_URLSearchParams_buildQueryString:
  "new_URLSearchParams (buildQueryString params) = build_searchParams params"
proof (cases "usp_toString (build_searchParams params) = []")
  case True
  then have "urlencoded_parse [] = build_searchParams params"
    using urlencoded_parse_toString [of "build_searchParams params"] by simp
  with True show ?thesis
    by (simp add: buildQueryString_def new_URLSearchParams_def)
next
  case False
  then show ?thesis
    by (simp add: buildQueryString_def new_URLSearchParams_def urlencoded_parse_toString)
qed

section \<open>Parsing, key by key\<close>

lemma parse_entry_merge:
  "parse_entry result (key, v)
     = set_property result key (merge_value (get_property result key) v)"
  by (simp add: parse_entry_def merge_value_def infer_value_def Let_def split: jsval.splits)

lemma own_key_iff: "k \<in> fst ` set al \<longleftrightarrow> (\<exists>v. map_of al k = Some v)"
  using map_of_eq_None_iff [of al k] by auto

lemma get_property_own:
  assumes "k \<in> fst ` set (own_props st)"
  shows "get_property st k = obj_get (own_props st) k"
proof -
  obtain v where "map_of (own_props st) k = Some v"
    using assms own_key_iff [of k "own_props st"] by blast
  then show ?thesis
    by (simp add: get_property_def obj_get_def)
qed

lemma set_property_keeps_own:
  "k \<in> fst ` set (own_props st) \<Longrightarrow> k \<in> fst ` set (own_props (set_property st key v))"
  by (auto simp add: set_property_def obj_set_def dom_update split: jsval.splits)

lemma obj_get_set_property_own:
  assumes "k \<in> fst ` set (own_props st)"
  shows "obj_get (own_props (set_property st key v)) k
           = (if key = k then v else obj_get (own_props st) k)"
proof -
  have "map_of (own_props st) k \<noteq> None"
    using assms by (simp add: map_of_eq_None_iff)
  then show ?thesis
    by (auto simp add: set_property_def obj_get_obj_set split: jsval.splits)
qed

lemma own_parse_fold:
  assumes "k \<in> fst ` set (own_props st)"
  shows "obj_get (own_props (foldl parse_entry st sp)) k
           = foldl merge_value (obj_get (own_props st) k) (usp_getAll sp k)"
  using assms
proof (induction sp arbitrary: st)
  case Nil
  then show ?case by (simp add: usp_getAll_def)
next
  case (Cons p sp)
  obtain key v where p: "p = (key, v)" by (cases p)
  let ?st = "parse_entry st (key, v)"
  have own: "k \<in> fst ` set (own_props ?st)"
    using Cons.prems by (simp add: parse_entry_merge set_property_keeps_own)
  have "obj_get (own_props ?st) k
      = (if key = k then merge_value (obj_get (own_props st) k) v else obj_get (own_props st) k)"
    using Cons.prems by (simp add: parse_entry_merge obj_get_set_property_own get_property_own)
  then show ?case
    using Cons.IH [OF own] p by (simp add: usp_getAll_def)
qed

lemma get_property_plain:
  assumes "proto_array st = None" and "k \<notin> set Object_prototype_names"
  shows "get_property st k = obj_get (own_props st) k"
proof -
  have "k \<noteq> ''__proto__''" "from_Object_prototype k = JUndefined"
    using assms(2) by (auto simp add: from_Object_prototype_def Object_prototype_names_def)
  then show ?thesis
    using assms(1) by (simp add: get_property_def obj_get_def split: option.splits)
qed

lemma set_property_plain:
  "key \<noteq> ''__proto__'' \<Longrightarrow>
     set_property st key v = st\<lparr>own_props := obj_set (own_props st) key v\<rparr>"
  by (simp add: set_property_def)

lemma plain_query_Cons: "plain_query (p # sp) \<longleftrightarrow> fst p \<noteq> ''__proto__'' \<and> plain_query sp"
  by (auto simp add: plain_query_def)

lemma plain_parse_fold:
  assumes "proto_array st = None" and "plain_query sp" and "k \<notin> set Object_prototype_names"
  shows "obj_get (own_props (foldl parse_entry st sp)) k
           = foldl merge_value (obj_get (own_props st) k) (usp_getAll sp k)"
  using assms(1,2)
proof (induction sp arbitrary: st)
  case Nil
  then show ?case by (simp add: usp_getAll_def)
next
  case (Cons p sp)
  obtain key v where p: "p = (key, v)" by (cases p)
  let ?st = "parse_entry st (key, v)"
  have key: "key \<noteq> ''__proto__''" and rest: "plain_query sp"
    using Cons.prems(2) p by (simp_all add: plain_query_Cons)
  have st: "?st = st\<lparr>own_props := obj_set (own_props st) key (merge_value (get_property st key) v)\<rparr>"
    using key by (simp add: parse_entry_merge set_property_plain)
  then have proto: "proto_array ?st = None"
    using Cons.prems(1) by simp
  have "obj_get (own_props ?st) k
      = (if key = k then merge_value (obj_get (own_props st) k) v else obj_get (own_props st) k)"
    using st get_property_plain [OF Cons.prems(1) assms(3)] by (simp add: obj_get_obj_set)
  then show ?case
    using Cons.IH [OF proto rest] p by (simp add: usp_getAll_def)
qed

lemma merge_array: "foldl merge_value (JArr xs) vs = JArr (xs @ map JStr vs)"
  by (induction vs arbitrary: xs) (simp_all add: merge_value_def)

lemma number_of_int_scalar:
  "number_of_int n \<noteq> JUndefined \<and> (\<forall>xs. number_of_int n \<noteq> JArr xs)"
  by (simp add: number_of_int_def split: option.splits)

lemma infer_value_scalar: "infer_value v \<noteq> JUndefined \<and> (\<forall>xs. infer_value v \<noteq> JArr xs)"
  using number_of_int_scalar by (simp add: infer_value_def parseInt_def)

lemma merge_scalar:
  assumes "d \<noteq> JUndefined" and "\<And>xs. d \<noteq> JArr xs"
  shows "foldl merge_value d (v # vs) = JArr (d # map JStr (v # vs))"
proof -
  have "merge_value d v = JArr [d, JStr v]"
    using assms by (cases d) (auto simp add: merge_value_def)
  then show ?thesis
    by (simp add: merge_array)
qed

lemma merge_first_seen:
  "foldl merge_value JUndefined (v # vs) =
     (if vs = [] then infer_value v else JArr (infer_value v # map JStr vs))"
proof (cases vs)
  case Nil
  then show ?thesis by (simp add: merge_value_def)
next
  case (Cons v' vs')
  have "merge_value JUndefined v = infer_value v"
    by (simp add: merge_value_def)
  then show ?thesis
    using Cons infer_value_scalar [of v] merge_scalar [of "infer_value v" v' vs']
    by simp
qed

lemma own_parseUrlParams:
  assumes "k \<in> fst ` set (spread_opt [] defaults)"
  shows "obj_get (parseUrlParams defaults w) k =
     foldl merge_value (defaults_get defaults k) (usp_getAll (getUrlParams w) k)"
  using assms own_parse_fold [of k "\<lparr>own_props = spread_opt [] defaults, proto_array = None\<rparr>"]
  by (simp add: parseUrlParams_def defaults_get_def)

lemma plain_parseUrlParams:
  assumes "plain_query (getUrlParams w)" and "k \<notin> set Object_prototype_names"
  shows "obj_get (parseUrlParams defaults w) k =
     foldl merge_value (defaults_get defaults k) (usp_getAll (getUrlParams w) k)"
  using assms
    plain_parse_fold [of "\<lparr>own_props = spread_opt [] defaults, proto_array = None\<rparr>" _ k]
  by (simp add: parseUrlParams_def defaults_get_def)

lemma defaults_get_own:
  "defaults_get defaults k \<noteq> JUndefined \<Longrightarrow> k \<in> fst ` set (spread_opt [] defaults)"
  unfolding own_key_iff by (auto simp add: defaults_get_def obj_get_def split: option.splits)

lemma defaults_get_Some: "is_object d \<Longrightarrow> defaults_get (Some d) k = obj_get d k"
  by (simp add: defaults_get_def spread_opt_def spread_empty)

lemma defaults_get_None: "defaults_get None k = JUndefined"
  by (simp add: defaults_get_def spread_opt_def obj_get_def)

subsection \<open>No exception\<close>

lemma parse_entry_exc_total: "parse_entry_exc st p = Inr (parse_entry st p)"
proof -
  obtain key v where p: "p = (key, v)" by (cases p)
  show ?thesis
    unfolding p
    by (cases "get_property st key")
      (simp_all add: parse_entry_exc_def parse_entry_def Array_isArray_def spread_elements_def)
qed

lemma forEach_exc_total: "forEach_exc st sp = Inr (foldl parse_entry st sp)"
  by (induction sp arbitrary: st) (simp_all add: parse_entry_exc_total)

lemma parseUrlParams_exc_total:
  "parseUrlParams_exc defaults w = Inr (parseUrlParams defaults w)"
  by (simp add: parseUrlParams_exc_def parseUrlParams_def forEach_exc_total)

lemma is_digit_iff: "is_digit c \<longleftrightarrow> c \<in> set ''0123456789''"
proof
  have conv: "(of_char c :: nat) = of_char d \<longleftrightarrow> c = d" for d
    by simp
  assume "is_digit c"
  then have "(of_char c :: nat) \<in> {48, 49, 50, 51, 52, 53, 54, 55, 56, 57}"
    by (simp add: is_digit_def) arith
  then show "c \<in> set ''0123456789''"
    using conv [of "CHR ''0''"] conv [of "CHR ''1''"] conv [of "CHR ''2''"] conv [of "CHR ''3''"]
      conv [of "CHR ''4''"] conv [of "CHR ''5''"] conv [of "CHR ''6''"] conv [of "CHR ''7''"]
      conv [of "CHR ''8''"] conv [of "CHR ''9''"]
    by auto
next
  assume "c \<in> set ''0123456789''"
  then show "is_digit c"
    by (auto simp add: is_digit_def)
qed

lemma test_digits_iff: "test_digits v \<longleftrightarrow> v \<noteq> [] \<and> set v \<subseteq> set ''0123456789''"
  unfolding test_digits_def list_all_iff using is_digit_iff by blast

lemma digits_value_snoc:
  "digits_value (xs @ [c]) = 10 * digits_value xs + int (of_char c - 48)"
  by (simp add: digits_value_def)

lemma digits_value_sum:
  "digits_value v
     = int (\<Sum>i<length v. ((of_char (v ! i) :: nat) - 48) * 10 ^ (length v - Suc i))"
proof (induction v rule: rev_induct)
  case Nil
  then show ?case by (simp add: digits_value_def)
next
  case (snoc c v)
  have "(\<Sum>i<length v. ((of_char ((v @ [c]) ! i) :: nat) - 48) * 10 ^ (length (v @ [c]) - Suc i))
      = (\<Sum>i<length v. 10 * (((of_char (v ! i) :: nat) - 48) * 10 ^ (length v - Suc i)))"
  proof (rule sum.cong)
    fix i assume "i \<in> {..<length v}"
    then have i: "i < length v" by simp
    then have "length v - i = Suc (length v - Suc i)" by simp
    with i show "((of_char ((v @ [c]) ! i) :: nat) - 48) * 10 ^ (length (v @ [c]) - Suc i)
        = 10 * (((of_char (v ! i) :: nat) - 48) * 10 ^ (length v - Suc i))"
      by (simp add: nth_append)
  qed simp
  then show ?case
    using snoc.IH by (simp add: digits_value_snoc sum_distrib_left)
qed

lemma round_to_double_small: "n < 2 ^ 53 \<Longrightarrow> round_to_double n = Some n"
  by (simp add: round_to_double_def)

lemma defaults_get_table_page:
  assumes "''page'' \<notin> fst ` set (case tdefaults of None \<Rightarrow> [] | Some t \<Rightarrow> t)"
  shows "defaults_get (Some (table_defaults tdefaults)) ''page'' = JNum 1"
proof -
  have keep: "''page'' \<notin> fst ` set t \<Longrightarrow> obj_get (spread obj t) ''page'' = obj_get obj ''page''"
    for t obj
    by (induction t arbitrary: obj) (auto simp add: spread_Nil spread_Cons obj_get_obj_set)
  have "obj_get (table_defaults tdefaults) ''page'' = JNum 1"
    using assms keep
    by (cases tdefaults) (simp_all add: table_defaults_def spread_opt_def obj_get_Cons)
  moreover have "is_object [(''page'', JNum 1), (''pageSize'', JNum 10)]"
    by (simp add: is_object_def)
  then have "is_object (table_defaults tdefaults)"
    by (cases tdefaults) (simp_all add: table_defaults_def spread_opt_def is_object_spread)
  ultimately show ?thesis
    by (simp add: defaults_get_Some)
qed

section \<open>Serialising, key by key\<close>

lemma usp_set_keys: "fst ` set (usp_set sp k s) \<subseteq> insert k (fst ` set sp)"
  by (induction sp) auto

lemma usp_append_fold_keys:
  "fst ` set (foldl (\<lambda>sp x. usp_append sp k (f x)) sp vs) \<subseteq> insert k (fst ` set sp)"
proof (induction vs arbitrary: sp)
  case Nil
  then show ?case by auto
next
  case (Cons a vs)
  have "fst ` set (foldl (\<lambda>sp x. usp_append sp k (f x)) (usp_append sp k (f a)) vs)
      \<subseteq> insert k (fst ` set (usp_append sp k (f a)))"
    by (rule Cons.IH)
  also have "\<dots> = insert k (fst ` set sp)"
    by (auto simp add: usp_append_def)
  finally show ?case by simp
qed

lemma build_entry_keys:
  "fst ` set (build_entry sp (k, v)) \<subseteq> fst ` set sp \<union> (if omitted v then {} else {k})"
proof (cases "omitted v")
  case True
  then show ?thesis
    by (simp add: build_entry_def omitted_def)
next
  case False
  then show ?thesis
    using usp_set_keys [of sp k "ToString v"] usp_append_fold_keys [of k ToString sp]
    by (cases v) (auto simp add: build_entry_def omitted_def)
qed

lemma build_fold_keys:
  "fst ` set (foldl build_entry sp P) \<subseteq> fst ` set sp \<union> {k. \<exists>v. (k, v) \<in> set P \<and> \<not> omitted v}"
proof (induction P arbitrary: sp)
  case Nil
  then show ?case by simp
next
  case (Cons e P)
  obtain k v where e: "e = (k, v)" by (cases e)
  let ?S = "\<lambda>P. {k. \<exists>v. (k, v) \<in> set P \<and> \<not> omitted v}"
  have "fst ` set (foldl build_entry (build_entry sp (k, v)) P)
      \<subseteq> fst ` set (build_entry sp (k, v)) \<union> ?S P"
    by (rule Cons.IH)
  also have "\<dots> \<subseteq> (fst ` set sp \<union> (if omitted v then {} else {k})) \<union> ?S P"
    using build_entry_keys [of sp k v] by blast
  also have "\<dots> \<subseteq> fst ` set sp \<union> ?S ((k, v) # P)"
    by auto
  finally show ?case
    using e by simp
qed

lemma of_char_digit_char: "d < 10 \<Longrightarrow> (of_char (digit_char d) :: nat) = 48 + d"
  by (simp add: digit_char_def)

lemma decimal_digits: "decimal n \<noteq> [] \<and> list_all is_digit (decimal n)"
proof (induction n rule: decimal.induct)
  case (1 n)
  show ?case
  proof (cases "n < 10")
    case True
    then have "nat n < 10" by simp
    with True show ?thesis
      by (simp add: decimal.simps [of n] is_digit_def of_char_digit_char)
  next
    case False
    moreover have "nat (n mod 10) < 10" by simp
    ultimately show ?thesis
      using "1.IH" by (simp add: decimal.simps [of n] is_digit_def of_char_digit_char)
  qed
qed

lemma digits_value_decimal: "0 \<le> n \<Longrightarrow> digits_value (decimal n) = n"
proof (induction n rule: decimal.induct)
  case (1 n)
  show ?case
  proof (cases "n < 10")
    case True
    then have "nat n < 10" by simp
    with True "1.prems" show ?thesis
      by (simp add: decimal.simps [of n] digits_value_def of_char_digit_char)
  next
    case False
    moreover have "nat (n mod 10) < 10" by simp
    moreover have "0 \<le> n div 10"
      using "1.prems" by simp
    ultimately show ?thesis
      using "1.IH" by (simp add: decimal.simps [of n] digits_value_snoc of_char_digit_char)
  qed
qed

lemma infer_value_decimal:
  assumes "0 \<le> c"
  shows "infer_value (decimal c) = number_of_int c"
proof -
  have digits: "test_digits (decimal c)"
    using decimal_digits [of c] by (simp add: test_digits_def)
  have "\<not> test_digits ''true''" "\<not> test_digits ''false''"
    by (simp_all add: test_digits_def is_digit_def)
  with digits have "decimal c \<noteq> ''true''" "decimal c \<noteq> ''false''"
    by auto
  with digits assms show ?thesis
    by (simp add: infer_value_def parseInt_def digits_value_decimal)
qed

lemma shortest_decimal_cases:
  "shortest_decimal x (Suc t) = shortest_decimal x t
   \<or> (round_to_double (shortest_decimal x (Suc t)) = Some x
      \<and> shortest_decimal x (Suc t)
          \<in> {(x div 10 ^ Suc t) * 10 ^ Suc t, (x div 10 ^ Suc t) * 10 ^ Suc t + 10 ^ Suc t})"
proof -
  define p :: int where "p = 10 ^ Suc t"
  define lo where "lo = (x div p) * p"
  define hi where "hi = lo + p"
  define c1 where "c1 = (if x - lo \<le> hi - x then lo else hi)"
  define c2 where "c2 = (if x - lo \<le> hi - x then hi else lo)"
  have unfold: "shortest_decimal x (Suc t) =
      (if round_to_double c1 = Some x then c1
       else if round_to_double c2 = Some x then c2
       else shortest_decimal x t)"
    unfolding c1_def c2_def hi_def lo_def p_def
    by (simp only: shortest_decimal.simps Let_def)
  have "c1 \<in> {lo, hi}" "c2 \<in> {lo, hi}"
    by (simp_all add: c1_def c2_def)
  then show ?thesis
    unfolding unfold by (auto simp add: hi_def lo_def p_def)
qed

lemma shortest_decimal_reads_back:
  "round_to_double x = Some x \<Longrightarrow> round_to_double (shortest_decimal x t) = Some x"
proof (induction t)
  case 0
  then show ?case by simp
next
  case (Suc t)
  then show ?case
    using shortest_decimal_cases [of x t] by auto
qed

lemma shortest_decimal_nonneg: "0 \<le> x \<Longrightarrow> 0 \<le> shortest_decimal x t"
proof (induction t)
  case 0
  then show ?case by simp
next
  case (Suc t)
  have "0 \<le> (x div 10 ^ Suc t) * 10 ^ Suc t"
    using Suc.prems by (simp add: pos_imp_zdiv_nonneg_iff)
  moreover have "(0::int) \<le> 10 ^ Suc t"
    by simp
  ultimately have "0 \<le> (x div 10 ^ Suc t) * 10 ^ Suc t + 10 ^ Suc t"
    by (rule add_nonneg_nonneg)
  with \<open>0 \<le> (x div 10 ^ Suc t) * 10 ^ Suc t\<close> show ?case
    using Suc shortest_decimal_cases [of x t] by auto
qed

lemma number_text_reads_back:
  assumes "0 \<le> n" and "n < 10 ^ 21" and "round_to_double n = Some n"
  shows "\<exists>c. 0 \<le> c \<and> number_text n = decimal c \<and> round_to_double c = Some n"
proof (cases "n < 2 ^ 53")
  case True
  with assms show ?thesis
    by (intro exI [of _ n]) (simp add: number_text_def)
next
  case False
  let ?c = "shortest_decimal n (length (decimal n) - 1)"
  have "number_text n = decimal ?c"
    using assms False by (simp add: number_text_def Let_def)
  then show ?thesis
    using assms shortest_decimal_reads_back [of n] shortest_decimal_nonneg [of n]
    by (intro exI [of _ ?c]) simp
qed

lemma infer_value_ToString:
  assumes "roundtrip_value v"
  shows "infer_value (ToString v) = v"
proof (cases v)
  case (JNum n)
  with assms have n: "0 \<le> n" "n < 10 ^ 21" "round_to_double n = Some n"
    by (simp_all add: roundtrip_value_def)
  then obtain c where "0 \<le> c" "number_text n = decimal c" "round_to_double c = Some n"
    using number_text_reads_back by blast
  with JNum n(1) show ?thesis
    by (simp add: infer_value_decimal number_of_int_def)
next
  case (JBool b)
  then show ?thesis
    by (simp add: infer_value_def)
next
  case (JStr s)
  with assms show ?thesis
    by (simp add: roundtrip_value_def infer_value_def)
qed (use assms in \<open>simp_all add: roundtrip_value_def\<close>)

lemma roundtrip_not_omitted:
  "roundtrip_value v \<Longrightarrow> v \<noteq> JUndefined \<and> v \<noteq> JNull \<and> v \<noteq> JStr [] \<and> (\<forall>xs. v \<noteq> JArr xs)"
  by (cases v) (auto simp add: roundtrip_value_def)

lemma usp_set_fresh: "k \<notin> fst ` set sp \<Longrightarrow> usp_set sp k s = sp @ [(k, s)]"
  by (induction sp) auto

lemma build_entry_roundtrip:
  assumes "roundtrip_value v" and "k \<notin> fst ` set sp"
  shows "build_entry sp (k, v) = sp @ [(k, ToString v)]"
  using assms roundtrip_not_omitted [OF assms(1)]
  by (cases v) (simp_all add: build_entry_def usp_set_fresh)

lemma build_fold_roundtrip:
  assumes "is_object P" and "list_all (\<lambda>e. roundtrip_value (snd e)) P"
    and "fst ` set sp \<inter> fst ` set P = {}"
  shows "foldl build_entry sp P = sp @ map (\<lambda>e. (fst e, ToString (snd e))) P"
  using assms
proof (induction P arbitrary: sp)
  case Nil
  then show ?case by simp
next
  case (Cons e P)
  obtain k v where e: "e = (k, v)" by (cases e)
  have step: "build_entry sp (k, v) = sp @ [(k, ToString v)]"
    using Cons.prems e by (intro build_entry_roundtrip) auto
  have "foldl build_entry (sp @ [(k, ToString v)]) P
      = (sp @ [(k, ToString v)]) @ map (\<lambda>e. (fst e, ToString (snd e))) P"
    using Cons.prems e by (intro Cons.IH) (auto simp add: is_object_def)
  then show ?case
    using step e by simp
qed

lemma parse_entry_roundtrip:
  assumes "roundtrip_value v" and "k \<notin> fst ` set (own_props st)"
    and "proto_array st = None" and "k \<notin> set Object_prototype_names"
  shows "parse_entry st (k, ToString v) = st\<lparr>own_props := own_props st @ [(k, v)]\<rparr>"
proof -
  have "k \<noteq> ''__proto__''"
    using assms(4) by (auto simp add: Object_prototype_names_def)
  moreover have "get_property st k = JUndefined"
    using assms by (simp add: get_property_plain obj_get_fresh)
  ultimately show ?thesis
    using assms(1,2)
    by (simp add: parse_entry_merge set_property_plain merge_value_def infer_value_ToString
        obj_set_fresh)
qed

lemma parse_fold_roundtrip:
  assumes "is_object P" and "list_all (\<lambda>e. roundtrip_value (snd e)) P"
    and "list_all (\<lambda>e. fst e \<notin> set Object_prototype_names) P"
    and "fst ` set (own_props st) \<inter> fst ` set P = {}" and "proto_array st = None"
  shows "own_props (foldl parse_entry st (map (\<lambda>e. (fst e, ToString (snd e))) P))
           = own_props st @ P"
  using assms
proof (induction P arbitrary: st)
  case Nil
  then show ?case by simp
next
  case (Cons e P)
  obtain k v where e: "e = (k, v)" by (cases e)
  let ?st = "st\<lparr>own_props := own_props st @ [(k, v)]\<rparr>"
  have step: "parse_entry st (k, ToString v) = ?st"
    using Cons.prems e by (intro parse_entry_roundtrip) auto
  have "own_props (foldl parse_entry ?st (map (\<lambda>e. (fst e, ToString (snd e))) P))
      = own_props ?st @ P"
    using Cons.prems e by (intro Cons.IH) (auto simp add: is_object_def)
  then show ?case
    using step e by simp
qed

section \<open>Writing the URL\<close>

lemma set_join: "x \<in> set (join sep xs) \<Longrightarrow> x \<in> set sep \<or> (\<exists>y\<in>set xs. x \<in> set y)"
  by (induction sep xs rule: join.induct) auto

lemma usp_toString_no_hash: "CHR ''#'' \<notin> set (usp_toString sp)"
proof
  let ?f = "\<lambda>(name, v). urlencoded_string name @ ''='' @ urlencoded_string v"
  assume "CHR ''#'' \<in> set (usp_toString sp)"
  then have "CHR ''#'' \<in> set (join ''&'' (map ?f sp))"
    by (simp add: usp_toString_def)
  then have "CHR ''#'' \<in> set ''&'' \<or> (\<exists>y\<in>set (map ?f sp). CHR ''#'' \<in> set y)"
    by (rule set_join)
  then obtain name v where "CHR ''#'' \<in> set (?f (name, v))"
    by auto
  then show False
    using urlencoded_string_chars [of "CHR ''#''"] by auto
qed

lemma buildQueryString_shape:
  "CHR ''#'' \<notin> set (buildQueryString params)
   \<and> (buildQueryString params = [] \<or> (\<exists>r. r \<noteq> [] \<and> buildQueryString params = CHR ''?'' # r))"
  using usp_toString_no_hash [of "build_searchParams params"]
  by (simp add: buildQueryString_def Let_def)

lemma location_hash_shape: "location_hash w = [] \<or> (\<exists>r. location_hash w = CHR ''#'' # r)"
proof (cases "dropWhile (\<lambda>c. c \<noteq> CHR ''#'') (location_href w)")
  case Nil
  show ?thesis
    unfolding location_hash_def Let_def Nil by simp
next
  case (Cons c r)
  then have "c = CHR ''#''"
    using hd_dropWhile [of "\<lambda>c. c \<noteq> CHR ''#''" "location_href w"] by auto
  then show ?thesis
    unfolding location_hash_def Let_def Cons by simp
qed

lemma search_of_url:
  assumes path: "\<And>c. c \<in> set path \<Longrightarrow> c \<noteq> CHR ''?'' \<and> c \<noteq> CHR ''#''"
    and qs: "CHR ''#'' \<notin> set qs" "qs = [] \<or> (\<exists>r. r \<noteq> [] \<and> qs = CHR ''?'' # r)"
    and hash: "h = [] \<or> (\<exists>r. h = CHR ''#'' # r)"
  shows "location_search (w\<lparr>location_href := path @ qs @ h\<rparr>) = qs"
proof -
  have drop: "dropWhile (\<lambda>c. c \<noteq> CHR ''?'' \<and> c \<noteq> CHR ''#'') (path @ qs @ h) = qs @ h"
    using path qs(2) hash by (auto simp add: dropWhile_append2)
  have "takeWhile (\<lambda>c. c \<noteq> CHR ''#'') (qs @ h) = qs"
    using qs(1) hash by (auto simp add: takeWhile_tail)
  with drop show ?thesis
    using qs(2) by (auto simp add: location_search_def)
qed

lemma location_search_setUrlParams:
  "location_search (setUrlParams params options w) = buildQueryString params"
proof -
  let ?url = "location_pathname w @ buildQueryString params @ location_hash w"
  have path: "c \<noteq> CHR ''?'' \<and> c \<noteq> CHR ''#''" if "c \<in> set (location_pathname w)" for c
    using that set_takeWhileD [of c _ "location_href w"] by (auto simp add: location_pathname_def)
  have search: "location_search (u\<lparr>location_href := ?url\<rparr>) = buildQueryString params" for u
    using path buildQueryString_shape [of params] location_hash_shape [of w]
    by (intro search_of_url) blast+
  have scroll: "location_search (u\<lparr>pending_scrollTo := q\<rparr>) = location_search u" for u q
    by (simp add: location_search_def)
  have "location_search (history_replaceState ?url w) = buildQueryString params"
    using search [of w] by (simp add: history_replaceState_def)
  moreover have "location_search (history_pushState ?url w) = buildQueryString params"
    using search [of "w\<lparr>history_back := location_href w # history_back w\<rparr>"]
    by (simp add: history_pushState_def location_search_def)
  ultimately show ?thesis
    by (simp add: setUrlParams_def Let_def scroll)
qed

lemma setUrlParams_push:
  "setUrlParams params None w =
     (history_pushState (location_pathname w @ buildQueryString params @ location_hash w) w)
       \<lparr>pending_scrollTo := pending_scrollTo w @ [scrollY w]\<rparr>"
  by (simp add: setUrlParams_def truthy_opt_def history_pushState_def Let_def)

lemma setTableParams_replace:
  "setTableParams params None w =
     (history_replaceState (location_pathname w @ buildQueryString params @ location_hash w) w)
       \<lparr>pending_scrollTo := pending_scrollTo w @ [scrollY w]\<rparr>"
  by (simp add: setTableParams_def setUrlParams_def truthy_opt_def history_replaceState_def Let_def)

lemma setAndSync_window:
  "snd (setAndSync params (s, w)) =
     (history_replaceState (location_pathname w @ buildQueryString params @ location_hash w) w)
       \<lparr>pending_scrollTo := pending_scrollTo w @ [scrollY w]\<rparr>"
  by (simp add: setAndSync_def setTableParams_replace)

lemma setAndSync_state: "fst (setAndSync params (s, w)) = params"
  by (simp add: setAndSync_def)

lemma obj_get_spread1:
  "is_object s \<Longrightarrow> obj_get (spread [] s) k = obj_get s k"
  by (simp add: spread_empty)

lemma spread_two: "spread obj [(a, x), (b, y)] = obj_set (obj_set obj a x) b y"
  by (simp add: spread_Cons spread_Nil)

subsection \<open>Concrete runs\<close>

lemma demo_omission:
  "buildQueryString [(''q'', JStr []), (''page'', JNum 2), (''sort'', JNull), (''f'', JUndefined)]
     = ''?page=2''"
  by code_simp

lemma demo_roundtrip:
  "buildQueryString
     [(''q'', JStr ''a&b=c d''), (''page'', JNum 12), (''open'', JBool False),
      (''big'', JNum 1152921504606846976)]
     = ''?q=a%26b%3Dc+d&page=12&open=false&big=1152921504606847000''"
  "location_search
     (demo_at ''/users?q=a%26b%3Dc+d&page=12&open=false&big=1152921504606847000#top'')
     = ''?q=a%26b%3Dc+d&page=12&open=false&big=1152921504606847000''"
  "round_to_double 1152921504606846976 = Some 1152921504606846976"
  by code_simp+

lemma demo_not_roundtrip:
  "parseUrlParams None (setUrlParams [(''q'', JStr ''true'')] None demo_window)
     = [(''q'', JBool True)]"
  "parseUrlParams None (setUrlParams [(''q'', JStr ''12'')] None demo_window)
     = [(''q'', JNum 12)]"
  "parseUrlParams None (setUrlParams [(''q'', JStr [])] None demo_window) = []"
  "parseUrlParams None (setUrlParams [(''n'', JNum 1000000000000000000000)] None demo_window)
     = [(''n'', JStr ''1e+21'')]"
  "location_search (setUrlParams [(''q'', JStr ''true'')] None demo_window) = ''?q=true''"
  "buildQueryString [(''q'', JStr ''true'')] = ''?q=true''"
  by code_simp+

lemma demo_numbers:
  "usp_getAll (getUrlParams (demo_at ''/list?n=042&flag=true&name=x1'')) ''n'' = [''042'']"
  "usp_getAll (getUrlParams (demo_at ''/list?n=042&flag=true&name=x1'')) ''flag'' = [''true'']"
  "usp_getAll (getUrlParams (demo_at ''/list?n=042&flag=true&name=x1'')) ''name'' = [''x1'']"
  "plain_query (getUrlParams (demo_at ''/list?n=042&flag=true&name=x1''))"
  by code_simp+

lemma demo_rounded:
  "usp_getAll (getUrlParams (demo_at ''/list?n=9007199254740993'')) ''n''
     = [''9007199254740993'']"
  "plain_query (getUrlParams (demo_at ''/list?n=9007199254740993''))"
  "parseUrlParams None (demo_at ''/list?n=9007199254740993'') = [(''n'', JNum 9007199254740992)]"
  by code_simp+

lemma demo_tags:
  "new_URLSearchParams ''?tag=a&tag=b&tag=c'' = [(''tag'', ''a''), (''tag'', ''b''), (''tag'', ''c'')]"
  by code_simp

lemma demo_tags_fold:
  "own_props (foldl parse_entry \<lparr>own_props = [], proto_array = None\<rparr>
     [(''tag'', ''a''), (''tag'', ''b''), (''tag'', ''c'')])
     = [(''tag'', JArr [JStr ''a'', JStr ''b'', JStr ''c''])]"
  by code_simp

lemma demo_repeated:
  "usp_getAll (getUrlParams (demo_at ''/list?n=1&tag=a&n=2&n=true'')) ''n'' = [''1'', ''2'', ''true'']"
  "location_search (demo_at ''/list?tag=a&tag=b&tag=c'') = ''?tag=a&tag=b&tag=c''"
  "infer_value ''1'' = JNum 1"
  "plain_query (getUrlParams (demo_at ''/list?n=1&tag=a&n=2&n=true''))"
  by code_simp+

lemma demo_inherited:
  "usp_getAll (getUrlParams (demo_at ''/list?constructor=12&constructor=b'')) ''constructor''
     = [''12'', ''b'']"
  "parseUrlParams None (demo_at ''/list?constructor=12&constructor=b'')
     = [(''constructor'', JArr [JFunction ''Object'', JStr ''12'', JStr ''b''])]"
  "parseUrlParams None (demo_at ''/list?toString=true'')
     = [(''toString'', JArr [JFunction ''toString'', JStr ''true''])]"
  by code_simp+

lemma demo_page:
  "usp_getAll (getUrlParams (demo_at ''/users?page=3'')) ''page'' = [''3'']"
  "usp_getAll (getUrlParams (demo_at ''/users?q=x&q=y'')) ''q'' = [''x'', ''y'']"
  "defaults_get (Some [(''q'', JNull)]) ''q'' = JNull"
  by code_simp+

lemma demo_array_default:
  "parseUrlParams (Some [(''tags'', JArr [JStr ''a''])]) (demo_at ''/users?tags=b'')
     = [(''tags'', JArr [JStr ''a'', JStr ''b''])]"
  by code_simp

lemma demo_popstate:
  "useUrlState_handlePopState (Some [(''sort'', JStr ''name'')]) (Some demo_state, demo_window)
     = (Some [(''sort'', JStr ''name''), (''tab'', JStr ''all'')], demo_window)"
  "useTableUrlState_handlePopState None (demo_state, demo_window)
     = ([(''page'', JNum 1), (''pageSize'', JNum 10), (''tab'', JStr ''all'')], demo_window)"
  by code_simp+

lemma demo_setSearch:
  "setSearch ''x'' (demo_state, demo_window)
     = ([(''page'', JNum 1), (''pageSize'', JNum 10), (''search'', JStr ''x'')],
        \<lparr>history_back = [''/home''], location_href = ''/users?page=1&pageSize=10&search=x#top'',
          history_forward = [], scrollY = 120, pending_scrollTo = [120]\<rparr>)"
  by code_simp

lemma demo_setPage:
  "setPage 2 (demo_state, demo_window)
     = ([(''page'', JNum 2), (''pageSize'', JNum 10)],
        \<lparr>history_back = [''/home''], location_href = ''/users?page=2&pageSize=10#top'',
          history_forward = [], scrollY = 120, pending_scrollTo = [120]\<rparr>)"
  by code_simp

lemma demo_push:
  "setUrlParams [(''page'', JNum 2), (''pageSize'', JNum 10)] None demo_window
     = \<lparr>history_back = [''/users?tab=all#top'', ''/home''],
         location_href = ''/users?page=2&pageSize=10#top'',
         history_forward = [], scrollY = 120, pending_scrollTo = [120]\<rparr>"
  by code_simp

lemma demo_setFilter_page:
  "fst (setFilter ''page'' (JNum 7) (demo_state, demo_window))
     = [(''page'', JNum 7), (''pageSize'', JNum 10)]"
  by code_simp

section \<open>The query-string codec\<close>

text \<open>
  Claim C1, as amended. For every parameter object whose keys are not names of
  properties of \<^verbatim>\<open>Object.prototype\<close> and whose values are booleans, non-negative integer
  Numbers below \<open>10^21\<close>, or strings that are not empty, not \<^verbatim>\<open>true\<close> or \<^verbatim>\<open>false\<close>
  and not made of decimal digits only, parsing the query string that
  \<open>buildQueryString\<close> gives for it, without defaults, returns the object itself. The
  strings may contain \<^verbatim>\<open>&\<close> and \<^verbatim>\<open>=\<close>, which \<^verbatim>\<open>URLSearchParams\<close> percent-encodes.
  The same holds for the query string that \<open>setUrlParams\<close> leaves in the window.
\<close>

theorem roundtrip:
  assumes "is_object P" and "list_all (\<lambda>e. roundtrip_value (snd e)) P"
    and "list_all (\<lambda>e. fst e \<notin> set Object_prototype_names) P"
    and "location_search w = buildQueryString P"
  shows "parseUrlParams None w = P
       \<and> parseUrlParams None (setUrlParams P options w') = P"
proof -
  have "parseUrlParams None u = P" if "location_search u = buildQueryString P" for u
  proof -
    have "getUrlParams u = map (\<lambda>e. (fst e, ToString (snd e))) P"
      using assms(1,2) that build_fold_roundtrip [of P "[]"]
      by (simp add: getUrlParams_def new_URLSearchParams_buildQueryString build_searchParams_def)
    then show ?thesis
      using assms(1,2,3) parse_fold_roundtrip [of P "\<lparr>own_props = [], proto_array = None\<rparr>"]
      by (simp add: parseUrlParams_def spread_opt_def)
  qed
  then show ?thesis
    using assms(4) location_search_setUrlParams by blast
qed

theorem roundtrip_witness:
  "is_object [(''q'', JStr ''a&b=c d''), (''page'', JNum 12), (''open'', JBool False),
              (''big'', JNum 1152921504606846976)]
   \<and> list_all (\<lambda>e. roundtrip_value (snd e))
        [(''q'', JStr ''a&b=c d''), (''page'', JNum 12), (''open'', JBool False),
         (''big'', JNum 1152921504606846976)]
   \<and> list_all (\<lambda>e. fst e \<notin> set Object_prototype_names)
        [(''q'', JStr ''a&b=c d''), (''page'', JNum 12), (''open'', JBool False),
         (''big'', JNum 1152921504606846976)]
   \<and> location_search
        (demo_at ''/users?q=a%26b%3Dc+d&page=12&open=false&big=1152921504606847000#top'')
       = buildQueryString
           [(''q'', JStr ''a&b=c d''), (''page'', JNum 12), (''open'', JBool False),
            (''big'', JNum 1152921504606846976)]
   \<and> parseUrlParams None
        (demo_at ''/users?q=a%26b%3Dc+d&page=12&open=false&big=1152921504606847000#top'')
       = [(''q'', JStr ''a&b=c d''), (''page'', JNum 12), (''open'', JBool False),
          (''big'', JNum 1152921504606846976)]
   \<and> parseUrlParams None
        (setUrlParams
           [(''q'', JStr ''a&b=c d''), (''page'', JNum 12), (''open'', JBool False),
            (''big'', JNum 1152921504606846976)]
           None demo_window)
       = [(''q'', JStr ''a&b=c d''), (''page'', JNum 12), (''open'', JBool False),
          (''big'', JNum 1152921504606846976)]"
proof -
  let ?P = "[(''q'', JStr ''a&b=c d''), (''page'', JNum 12), (''open'', JBool False),
             (''big'', JNum 1152921504606846976)]"
  have obj: "is_object ?P"
    by (simp add: is_object_def)
  have vals: "list_all (\<lambda>e. roundtrip_value (snd e)) ?P"
    by (simp add: roundtrip_value_def test_digits_def is_digit_def round_to_double_small
        demo_roundtrip(3))
  have keys: "list_all (\<lambda>e. fst e \<notin> set Object_prototype_names) ?P"
    by (simp add: Object_prototype_names_def)
  have loc: "location_search
      (demo_at ''/users?q=a%26b%3Dc+d&page=12&open=false&big=1152921504606847000#top'')
      = buildQueryString ?P"
    by (simp only: demo_roundtrip)
  show ?thesis
    using obj vals keys loc roundtrip [OF obj vals keys loc, of None demo_window] by blast
qed

text \<open>
  The claim as stated admits every string without \<^verbatim>\<open>&\<close> and \<^verbatim>\<open>=\<close> and every
  non-negative integer. The string \<^verbatim>\<open>"true"\<close> comes back as the boolean, the string
  \<^verbatim>\<open>"12"\<close> as the number, a key with the empty string is not written at all, and the
  Number \<open>10^21\<close> is written as \<^verbatim>\<open>1e+21\<close>, which comes back as a string.
\<close>

theorem roundtrip_counterexample:
  "location_search (setUrlParams [(''q'', JStr ''true'')] None demo_window)
     = buildQueryString [(''q'', JStr ''true'')]
   \<and> parseUrlParams None (setUrlParams [(''q'', JStr ''true'')] None demo_window)
       \<noteq> [(''q'', JStr ''true'')]
   \<and> parseUrlParams None (setUrlParams [(''q'', JStr ''12'')] None demo_window)
       \<noteq> [(''q'', JStr ''12'')]
   \<and> parseUrlParams None (setUrlParams [(''q'', JStr [])] None demo_window)
       \<noteq> [(''q'', JStr [])]
   \<and> parseUrlParams None (setUrlParams [(''n'', JNum 1000000000000000000000)] None demo_window)
       \<noteq> [(''n'', JNum 1000000000000000000000)]"
  by (simp add: demo_not_roundtrip)

text \<open>
  Claim C6. For every parameter object and every key whose value is \<^verbatim>\<open>undefined\<close>
  (a missing key reads so too), \<^verbatim>\<open>null\<close> or the empty string, the search parameters
  that \<open>buildQueryString\<close> builds hold no pair of that name, and neither does the string
  it returns when it is parsed back.
\<close>

theorem omission_invariant:
  assumes "is_object P"
    and "obj_get P k = JUndefined \<or> obj_get P k = JNull \<or> obj_get P k = JStr []"
  shows "k \<notin> fst ` set (build_searchParams P)
       \<and> k \<notin> fst ` set (new_URLSearchParams (buildQueryString P))
       \<and> usp_getAll (new_URLSearchParams (buildQueryString P)) k = []"
proof -
  have "k \<notin> fst ` set (build_searchParams P)"
  proof
    assume "k \<in> fst ` set (build_searchParams P)"
    then obtain v where "(k, v) \<in> set P" and "\<not> omitted v"
      using build_fold_keys [of "[]" P] by (auto simp add: build_searchParams_def)
    then show False
      using assms obj_get_member [of P k v] by (simp add: omitted_def)
  qed
  then show ?thesis
    by (auto simp add: new_URLSearchParams_buildQueryString usp_getAll_def filter_empty_conv)
qed

theorem omission_invariant_witness:
  "is_object [(''q'', JStr []), (''page'', JNum 2), (''sort'', JNull), (''f'', JUndefined)]
   \<and> obj_get [(''q'', JStr []), (''page'', JNum 2), (''sort'', JNull), (''f'', JUndefined)] ''q''
       = JStr []
   \<and> ''q'' \<notin> fst ` set (new_URLSearchParams
        (buildQueryString
           [(''q'', JStr []), (''page'', JNum 2), (''sort'', JNull), (''f'', JUndefined)]))
   \<and> buildQueryString [(''q'', JStr []), (''page'', JNum 2), (''sort'', JNull), (''f'', JUndefined)]
       = ''?page=2''"
proof -
  let ?P = "[(''q'', JStr []), (''page'', JNum 2), (''sort'', JNull), (''f'', JUndefined)]"
  have obj: "is_object ?P"
    by (simp add: is_object_def)
  have q: "obj_get ?P ''q'' = JStr []"
    by (simp add: obj_get_Cons)
  have "''q'' \<notin> fst ` set (new_URLSearchParams (buildQueryString ?P))"
    using omission_invariant [OF obj, of "''q''"] q by blast
  then show ?thesis
    using obj q demo_omission by blast
qed

text \<open>
  Claim C5, as amended. For a key that is not the name of a property of
  \<^verbatim>\<open>Object.prototype\<close>, that the copy of the defaults does not hold, in a query string
  without a pair named \<^verbatim>\<open>__proto__\<close>, the first occurrence is stored by the decision
  table: \<^verbatim>\<open>"true"\<close> and \<^verbatim>\<open>"false"\<close> become the booleans, a non-empty string of
  decimal digits becomes the integer it denotes when that is below \<open>2^53\<close> and the Number
  nearest to it otherwise, and any other string stays a string. (Further occurrences
  are appended raw.) No input makes the loop raise: read with the exception of the
  array spread made explicit, \<open>parseUrlParams\<close> returns for every defaults and every
  window.
\<close>

theorem coercion_table:
  assumes "defaults_get defaults k = JUndefined"
    and "k \<notin> set Object_prototype_names"
    and "plain_query (getUrlParams w)"
    and "usp_getAll (getUrlParams w) k = v # vs"
  shows "obj_get (parseUrlParams defaults w) k =
     (let first =
        (if v = ''true'' then JBool True
         else if v = ''false'' then JBool False
         else if v \<noteq> [] \<and> set v \<subseteq> set ''0123456789''
           then
             (let n = int (\<Sum>i<length v. ((of_char (v ! i) :: nat) - 48) * 10 ^ (length v - Suc i))
              in if n < 2 ^ 53 then JNum n else number_of_int n)
         else JStr v)
      in if vs = [] then first else JArr (first # map JStr vs))
     \<and> parseUrlParams_exc defaults' w' = Inr (parseUrlParams defaults' w')"
proof -
  have small: "n < 2 ^ 53 \<Longrightarrow> number_of_int n = JNum n" for n
    by (simp add: number_of_int_def round_to_double_small)
  have inf: "infer_value v =
        (if v = ''true'' then JBool True
         else if v = ''false'' then JBool False
         else if v \<noteq> [] \<and> set v \<subseteq> set ''0123456789''
           then (let n = digits_value v in if n < 2 ^ 53 then JNum n else number_of_int n)
         else JStr v)"
    by (simp add: infer_value_def parseInt_def test_digits_iff small Let_def)
  have "obj_get (parseUrlParams defaults w) k =
      (if vs = [] then infer_value v else JArr (infer_value v # map JStr vs))"
    using plain_parseUrlParams [OF assms(3,2), of defaults] assms(1,4) merge_first_seen [of v vs]
    by simp
  then have "obj_get (parseUrlParams defaults w) k =
     (let first =
        (if v = ''true'' then JBool True
         else if v = ''false'' then JBool False
         else if v \<noteq> [] \<and> set v \<subseteq> set ''0123456789''
           then (let n = digits_value v in if n < 2 ^ 53 then JNum n else number_of_int n)
         else JStr v)
      in if vs = [] then first else JArr (first # map JStr vs))"
    unfolding inf Let_def .
  then show ?thesis
    unfolding digits_value_sum using parseUrlParams_exc_total by blast
qed

theorem coercion_table_witness:
  "defaults_get None ''n'' = JUndefined
   \<and> ''n'' \<notin> set Object_prototype_names
   \<and> plain_query (getUrlParams (demo_at ''/list?n=042&flag=true&name=x1''))
   \<and> usp_getAll (getUrlParams (demo_at ''/list?n=042&flag=true&name=x1'')) ''n'' = [''042'']
   \<and> obj_get (parseUrlParams None (demo_at ''/list?n=042&flag=true&name=x1'')) ''n'' = JNum 42
   \<and> obj_get (parseUrlParams None (demo_at ''/list?n=042&flag=true&name=x1'')) ''flag''
       = JBool True
   \<and> obj_get (parseUrlParams None (demo_at ''/list?n=042&flag=true&name=x1'')) ''name''
       = JStr ''x1''
   \<and> parseUrlParams_exc None (demo_at ''/list?constructor=12&constructor=b'')
       = Inr [(''constructor'', JArr [JFunction ''Object'', JStr ''12'', JStr ''b''])]"
proof -
  let ?w = "demo_at ''/list?n=042&flag=true&name=x1''"
  have none: "defaults_get None k = JUndefined" for k
    by (simp add: defaults_get_None)
  have keys: "''n'' \<notin> set Object_prototype_names" "''flag'' \<notin> set Object_prototype_names"
    "''name'' \<notin> set Object_prototype_names"
    by (simp_all add: Object_prototype_names_def)
  note plain = demo_numbers(4)
  have "obj_get (parseUrlParams None ?w) ''n'' = JNum 42
      \<and> parseUrlParams_exc None (demo_at ''/list?constructor=12&constructor=b'')
          = Inr (parseUrlParams None (demo_at ''/list?constructor=12&constructor=b''))"
    using coercion_table [OF none keys(1) plain demo_numbers(1),
        of None "demo_at ''/list?constructor=12&constructor=b''"]
    by (simp add: lessThan_Suc numeral_3_eq_3)
  moreover have "obj_get (parseUrlParams None ?w) ''flag'' = JBool True"
    using coercion_table [OF none keys(2) plain demo_numbers(2)] by simp
  moreover have "obj_get (parseUrlParams None ?w) ''name'' = JStr ''x1''"
    using coercion_table [OF none keys(3) plain demo_numbers(3)] by simp
  ultimately show ?thesis
    using none keys(1) plain demo_numbers(1) by (simp add: demo_inherited(2))
qed

text \<open>
  The claim as stated makes every digit string the corresponding integer. The digits
  \<^verbatim>\<open>9007199254740993\<close> (\<open>2^53 + 1\<close>) are stored as the Number \<open>9007199254740992\<close>.
\<close>

theorem coercion_table_counterexample:
  "defaults_get None ''n'' = JUndefined
   \<and> usp_getAll (getUrlParams (demo_at ''/list?n=9007199254740993'')) ''n''
       = [''9007199254740993'']
   \<and> obj_get (parseUrlParams None (demo_at ''/list?n=9007199254740993'')) ''n''
       = JNum 9007199254740992
   \<and> obj_get (parseUrlParams None (demo_at ''/list?n=9007199254740993'')) ''n''
       \<noteq> JNum 9007199254740993"
  by (simp add: demo_rounded defaults_get_None obj_get_Cons)

text \<open>
  Repeated keys. When a key that is not the name of a property of \<^verbatim>\<open>Object.prototype\<close>
  and that the copy of the defaults does not hold occurs more than once, in a query
  string without a pair named \<^verbatim>\<open>__proto__\<close>, the result holds for it the array of its
  occurrences in order: the first one type-inferred, the later ones as raw strings. In
  particular the query \<^verbatim>\<open>tag=a&tag=b&tag=c\<close> without defaults parses to
  \<^verbatim>\<open>{ tag: ["a", "b", "c"] }\<close>.
\<close>

lemma repeated_plain_key:
  assumes "defaults_get defaults k = JUndefined"
    and "k \<notin> set Object_prototype_names"
    and "plain_query (getUrlParams w)"
    and "usp_getAll (getUrlParams w) k = v # v' # vs"
  shows "obj_get (parseUrlParams defaults w) k = JArr (infer_value v # map JStr (v' # vs))
       \<and> (location_search w' = ''?tag=a&tag=b&tag=c'' \<longrightarrow>
            parseUrlParams None w' = [(''tag'', JArr [JStr ''a'', JStr ''b'', JStr ''c''])])"
proof -
  have "obj_get (parseUrlParams defaults w) k = JArr (infer_value v # map JStr (v' # vs))"
    using plain_parseUrlParams [OF assms(3,2), of defaults] assms(1,4)
      merge_first_seen [of v "v' # vs"]
    by simp
  moreover have "parseUrlParams None w' = [(''tag'', JArr [JStr ''a'', JStr ''b'', JStr ''c''])]"
    if "location_search w' = ''?tag=a&tag=b&tag=c''"
    using that
    by (simp only: parseUrlParams_def getUrlParams_def demo_tags spread_opt_def Let_def
        option.case demo_tags_fold)
  ultimately show ?thesis
    by blast
qed

text \<open>
  Claim C4. The claim covers every key that occurs more than once and is absent from
  the defaults. The code tests \<^verbatim>\<open>result[key] !== undefined\<close>, which reads through the
  prototype chain: for the query \<^verbatim>\<open>constructor=12&constructor=b\<close> without defaults the
  first occurrence already finds the inherited function \<^verbatim>\<open>Object\<close>, so the result is
  \<^verbatim>\<open>[Object, "12", "b"]\<close>, with the first occurrence not type-inferred, and not the
  \<^verbatim>\<open>[12, "b"]\<close> of the claim.
\<close>

theorem inherited_key_aggregation:
  "defaults_get None ''constructor'' = JUndefined
   \<and> usp_getAll (getUrlParams (demo_at ''/list?constructor=12&constructor=b'')) ''constructor''
       = [''12'', ''b'']
   \<and> parseUrlParams None (demo_at ''/list?constructor=12&constructor=b'')
       = [(''constructor'', JArr [JFunction ''Object'', JStr ''12'', JStr ''b''])]
   \<and> obj_get (parseUrlParams None (demo_at ''/list?constructor=12&constructor=b''))
         ''constructor'' \<noteq> JArr [JNum 12, JStr ''b'']"
  by (simp add: demo_inherited defaults_get_None obj_get_Cons)

text \<open>
  Claim C3, as amended. When the defaults supply a value \<open>d\<close> for a key that also
  occurs in the query string, the default is not overwritten: a default that is not an
  array becomes the first element of an array, followed by the raw occurrences; a
  default that is an array is extended by the raw occurrences. In particular
  \<open>parseTableParams\<close>, whose defaults hold \<^verbatim>\<open>page: 1\<close> unless the caller's defaults name
  \<^verbatim>\<open>page\<close>, yields \<^verbatim>\<open>page = [1, "3"]\<close> on a URL with the single pair \<^verbatim>\<open>page=3\<close>.
\<close>

theorem default_and_url_key:
  assumes "defaults_get defaults k = d" and "d \<noteq> JUndefined"
    and "usp_getAll (getUrlParams w) k = v # vs"
  shows "obj_get (parseUrlParams defaults w) k =
           (case d of
              JArr xs \<Rightarrow> JArr (xs @ map JStr (v # vs))
            | _ \<Rightarrow> JArr (d # map JStr (v # vs)))
       \<and> (''page'' \<notin> fst ` set (case tdefaults of None \<Rightarrow> [] | Some t \<Rightarrow> t)
            \<and> usp_getAll (getUrlParams w') ''page'' = [''3'']
          \<longrightarrow> obj_get (parseTableParams tdefaults w') ''page'' = JArr [JNum 1, JStr ''3''])"
proof -
  have gen: "obj_get (parseUrlParams ds u) key =
           (case dv of
              JArr xs \<Rightarrow> JArr (xs @ map JStr (x # xs'))
            | _ \<Rightarrow> JArr (dv # map JStr (x # xs')))"
    if "defaults_get ds key = dv" "dv \<noteq> JUndefined" "usp_getAll (getUrlParams u) key = x # xs'"
    for ds u key dv x xs'
  proof -
    have own: "key \<in> fst ` set (spread_opt [] ds)"
      using that(1,2) defaults_get_own by blast
    show ?thesis
    proof (cases "\<exists>ys. dv = JArr ys")
      case True
      then show ?thesis
        using that by (auto simp only: own_parseUrlParams [OF own] merge_array jsval.case)
    next
      case False
      then have "foldl merge_value dv (x # xs') = JArr (dv # map JStr (x # xs'))"
        using that(2) by (intro merge_scalar) auto
      then show ?thesis
        using that False
        by (cases dv) (simp_all only: own_parseUrlParams [OF own] jsval.case, auto)
    qed
  qed
  have "obj_get (parseTableParams tdefaults w') ''page'' = JArr [JNum 1, JStr ''3'']"
    if "''page'' \<notin> fst ` set (case tdefaults of None \<Rightarrow> [] | Some t \<Rightarrow> t)"
      and "usp_getAll (getUrlParams w') ''page'' = [''3'']"
    using gen [OF defaults_get_table_page [OF that(1)] _ that(2)]
    by (simp add: parseTableParams_def)
  then show ?thesis
    using gen [OF assms] by blast
qed

theorem default_and_url_key_witness:
  "defaults_get (Some [(''q'', JNull)]) ''q'' = JNull \<and> JNull \<noteq> JUndefined
   \<and> usp_getAll (getUrlParams (demo_at ''/users?q=x&q=y'')) ''q'' = [''x'', ''y'']
   \<and> obj_get (parseUrlParams (Some [(''q'', JNull)]) (demo_at ''/users?q=x&q=y'')) ''q''
       = JArr [JNull, JStr ''x'', JStr ''y'']
   \<and> usp_getAll (getUrlParams (demo_at ''/users?page=3'')) ''page'' = [''3'']
   \<and> obj_get (parseTableParams None (demo_at ''/users?page=3'')) ''page''
       = JArr [JNum 1, JStr ''3'']"
proof -
  have "obj_get (parseUrlParams (Some [(''q'', JNull)]) (demo_at ''/users?q=x&q=y'')) ''q''
       = JArr [JNull, JStr ''x'', JStr ''y'']
     \<and> obj_get (parseTableParams None (demo_at ''/users?page=3'')) ''page''
       = JArr [JNum 1, JStr ''3'']"
    using default_and_url_key [OF demo_page(3) _ demo_page(2), of None "demo_at ''/users?page=3''"]
      demo_page(1)
    by simp
  then show ?thesis
    using demo_page by simp
qed

text \<open>
  The claim as stated makes the default value the first element for every default.
  With the default \<^verbatim>\<open>tags: ["a"]\<close> and the query \<^verbatim>\<open>tags=b\<close> the result is
  \<^verbatim>\<open>["a", "b"]\<close>, whose first element is not the default \<^verbatim>\<open>["a"]\<close>.
\<close>

theorem default_and_url_key_counterexample:
  "defaults_get (Some [(''tags'', JArr [JStr ''a''])]) ''tags'' = JArr [JStr ''a'']
   \<and> usp_getAll (getUrlParams (demo_at ''/users?tags=b'')) ''tags'' = [''b'']
   \<and> obj_get (parseUrlParams (Some [(''tags'', JArr [JStr ''a''])]) (demo_at ''/users?tags=b''))
         ''tags'' = JArr [JStr ''a'', JStr ''b'']
   \<and> obj_get (parseUrlParams (Some [(''tags'', JArr [JStr ''a''])]) (demo_at ''/users?tags=b''))
         ''tags'' \<noteq> JArr [JArr [JStr ''a''], JStr ''b'']"
proof -
  have "defaults_get (Some [(''tags'', JArr [JStr ''a''])]) ''tags'' = JArr [JStr ''a'']"
    by code_simp
  moreover have "usp_getAll (getUrlParams (demo_at ''/users?tags=b'')) ''tags'' = [''b'']"
    by code_simp
  ultimately show ?thesis
    by (simp add: demo_array_default obj_get_Cons)
qed

section \<open>The hooks\<close>

text \<open>
  Claim C9. The generic hook's \<^verbatim>\<open>reset()\<close> is to leave the defaults as the in-memory
  state, or the empty object when no defaults were supplied, and to push that state to
  the URL. The code stores \<^verbatim>\<open>defaults\<close> as it is and applies \<^verbatim>\<open>?? {}\<close> only to
  the URL write: without defaults the state after \<^verbatim>\<open>reset()\<close> is \<^verbatim>\<open>undefined\<close>
  (\<open>None\<close>), not the empty object (\<open>Some []\<close>), while the pushed URL is the one of the
  empty object. With defaults \<open>d\<close> the state is \<open>d\<close> and the URL of \<open>d\<close> is pushed.
\<close>

theorem generic_reset_without_defaults:
  "fst (useUrlState_reset None (state, w)) = None
   \<and> fst (useUrlState_reset None (state, w)) \<noteq> Some []
   \<and> snd (useUrlState_reset None (state, w))
     = (history_pushState (location_pathname w @ buildQueryString [] @ location_hash w) w)
         \<lparr>pending_scrollTo := pending_scrollTo w @ [scrollY w]\<rparr>
   \<and> fst (useUrlState_reset (Some d) (state, w)) = Some d
   \<and> snd (useUrlState_reset (Some d) (state, w))
     = (history_pushState (location_pathname w @ buildQueryString d @ location_hash w) w)
         \<lparr>pending_scrollTo := pending_scrollTo w @ [scrollY w]\<rparr>"
  by (simp add: useUrlState_reset_def setUrlParams_push)

text \<open>
  Claim C10. For every defaults object, the table hook's \<^verbatim>\<open>reset()\<close> leaves the state
  \<^verbatim>\<open>{ page: 1, pageSize: 10, ...defaults }\<close>, and a second \<^verbatim>\<open>reset()\<close> right after
  the first leaves the same state again. Read key by key, that state holds the value of
  the defaults where they name the key, and otherwise \<^verbatim>\<open>page = 1\<close> and
  \<^verbatim>\<open>pageSize = 10\<close>.
\<close>

theorem table_reset_idempotent:
  "fst (useTableUrlState_reset defaults sw)
     = spread_opt [(''page'', JNum 1), (''pageSize'', JNum 10)] defaults
   \<and> fst (useTableUrlState_reset defaults (useTableUrlState_reset defaults sw))
     = fst (useTableUrlState_reset defaults sw)
   \<and> (defaults = None \<longrightarrow>
        fst (useTableUrlState_reset defaults sw) = [(''page'', JNum 1), (''pageSize'', JNum 10)])
   \<and> (defaults = Some d \<and> is_object d \<longrightarrow>
        obj_get (fst (useTableUrlState_reset defaults sw)) k =
          (if k \<in> fst ` set d then obj_get d k
           else if k = ''page'' then JNum 1
           else if k = ''pageSize'' then JNum 10
           else JUndefined))"
proof -
  have state: "fst (useTableUrlState_reset ds x)
      = spread_opt [(''page'', JNum 1), (''pageSize'', JNum 10)] ds" for ds x
    by (cases x) (simp add: useTableUrlState_reset_def table_defaults_def Let_def)
  have "obj_get (spread [(''page'', JNum 1), (''pageSize'', JNum 10)] d) k =
          (if k \<in> fst ` set d then obj_get d k
           else if k = ''page'' then JNum 1
           else if k = ''pageSize'' then JNum 10
           else JUndefined)"
    if "is_object d"
    using that by (simp add: obj_get_spread obj_get_Cons obj_get_Nil)
  then show ?thesis
    by (auto simp add: state spread_opt_def)
qed

theorem table_reset_idempotent_witness:
  "fst (useTableUrlState_reset (Some [(''pageSize'', JNum 25), (''status'', JStr ''open'')])
          (demo_state, demo_window))
     = [(''page'', JNum 1), (''pageSize'', JNum 25), (''status'', JStr ''open'')]
   \<and> fst (useTableUrlState_reset (Some [(''pageSize'', JNum 25), (''status'', JStr ''open'')])
        (useTableUrlState_reset (Some [(''pageSize'', JNum 25), (''status'', JStr ''open'')])
          (demo_state, demo_window)))
     = [(''page'', JNum 1), (''pageSize'', JNum 25), (''status'', JStr ''open'')]
   \<and> is_object [(''pageSize'', JNum 25), (''status'', JStr ''open'')]
   \<and> obj_get (fst (useTableUrlState_reset
                      (Some [(''pageSize'', JNum 25), (''status'', JStr ''open'')])
                      (demo_state, demo_window))) ''pageSize'' = JNum 25"
proof -
  let ?d = "[(''pageSize'', JNum 25), (''status'', JStr ''open'')]"
  have obj: "is_object ?d"
    by (simp add: is_object_def)
  show ?thesis
    using obj table_reset_idempotent [of "Some ?d" "(demo_state, demo_window)" ?d "''pageSize''"]
    by (simp add: spread_opt_def spread_def obj_set_def obj_get_Cons)
qed

text \<open>
  Claim C8. When the popstate event fires, the handler of either hook sets the state to
  the parse of the current query string over the defaults (the table hook over
  \<^verbatim>\<open>{ page: 1, pageSize: 10, ...defaults }\<close>) and leaves the window as it is: nothing is
  pushed or replaced, and the history keeps its length.
\<close>

theorem popstate_writes_no_history:
  "useUrlState_handlePopState defaults (state, w)
     = (Some (own_props
                (foldl parse_entry \<lparr>own_props = spread_opt [] defaults, proto_array = None\<rparr>
                   (new_URLSearchParams (location_search w)))), w)
   \<and> useTableUrlState_handlePopState defaults (tstate, w)
     = (own_props
          (foldl parse_entry
             \<lparr>own_props =
                spread_opt []
                  (Some (spread_opt [(''page'', JNum 1), (''pageSize'', JNum 10)] defaults)),
              proto_array = None\<rparr>
             (new_URLSearchParams (location_search w))), w)
   \<and> history_length (snd (useUrlState_handlePopState defaults (state, w))) = history_length w
   \<and> history_length (snd (useTableUrlState_handlePopState defaults (tstate, w)))
       = history_length w"
  by (simp add: useUrlState_handlePopState_def useTableUrlState_handlePopState_def
      parseTableParams_def parseUrlParams_def getUrlParams_def table_defaults_def)

theorem popstate_writes_no_history_witness:
  "useUrlState_handlePopState (Some [(''sort'', JStr ''name'')]) (Some demo_state, demo_window)
     = (Some [(''sort'', JStr ''name''), (''tab'', JStr ''all'')], demo_window)
   \<and> useTableUrlState_handlePopState None (demo_state, demo_window)
     = ([(''page'', JNum 1), (''pageSize'', JNum 10), (''tab'', JStr ''all'')], demo_window)
   \<and> history_length
        (snd (useUrlState_handlePopState (Some [(''sort'', JStr ''name'')])
                (Some demo_state, demo_window)))
       = history_length demo_window"
proof -
  have "history_length
        (snd (useUrlState_handlePopState (Some [(''sort'', JStr ''name'')])
                (Some demo_state, demo_window)))
       = history_length demo_window"
    using popstate_writes_no_history
      [of "Some [(''sort'', JStr ''name'')]" "Some demo_state" demo_window] by blast
  then show ?thesis
    using demo_popstate by blast
qed

text \<open>
  Claim C2, as amended. Every mutator of the table hook (\<^verbatim>\<open>setPage\<close>,
  \<^verbatim>\<open>setPageSize\<close>, \<^verbatim>\<open>setSearch\<close>, \<^verbatim>\<open>setSort\<close>, \<^verbatim>\<open>setFilter\<close>, \<^verbatim>\<open>reset\<close>)
  writes the state it produces through \<^verbatim>\<open>setTableParams\<close>, whose default is
  \<^verbatim>\<open>replace: true\<close>: the current history entry is replaced by the URL of the new state,
  and the entries behind and ahead, hence the length of the history, stay as they were.
\<close>

theorem table_mutators_replace:
  assumes "op \<in> {setPage n, setPageSize m, setSearch x, setSort field ord, setFilter k v,
                  useTableUrlState_reset defaults}"
  shows "snd (op (s, w))
           = (history_replaceState
                (location_pathname w @ buildQueryString (fst (op (s, w))) @ location_hash w) w)
               \<lparr>pending_scrollTo := pending_scrollTo w @ [scrollY w]\<rparr>
         \<and> history_back (snd (op (s, w))) = history_back w
         \<and> history_forward (snd (op (s, w))) = history_forward w
         \<and> history_length (snd (op (s, w))) = history_length w"
proof -
  have "snd (op (s, w))
           = (history_replaceState
                (location_pathname w @ buildQueryString (fst (op (s, w))) @ location_hash w) w)
               \<lparr>pending_scrollTo := pending_scrollTo w @ [scrollY w]\<rparr>"
    using assms
    by (auto simp add: setPage_def setPageSize_def setSearch_def setSort_def setFilter_def
        useTableUrlState_reset_def setAndSync_window setAndSync_state setTableParams_replace
        Let_def)
  then show ?thesis
    by (simp add: history_replaceState_def history_length_def)
qed

theorem table_mutators_replace_witness:
  "snd (setSearch ''x'' (demo_state, demo_window))
     = \<lparr>history_back = [''/home''], location_href = ''/users?page=1&pageSize=10&search=x#top'',
        history_forward = [], scrollY = 120, pending_scrollTo = [120]\<rparr>
   \<and> history_back (snd (setSearch ''x'' (demo_state, demo_window))) = history_back demo_window
   \<and> history_length (snd (setSearch ''x'' (demo_state, demo_window))) = history_length demo_window"
proof -
  have "history_back (snd (setSearch ''x'' (demo_state, demo_window))) = history_back demo_window
      \<and> history_length (snd (setSearch ''x'' (demo_state, demo_window)))
          = history_length demo_window"
    using table_mutators_replace
      [of "setSearch ''x''" 0 0 "''x''" "[]" Asc "[]" JNull None demo_state demo_window]
    by blast
  moreover have "snd (setSearch ''x'' (demo_state, demo_window))
     = \<lparr>history_back = [''/home''], location_href = ''/users?page=1&pageSize=10&search=x#top'',
        history_forward = [], scrollY = 120, pending_scrollTo = [120]\<rparr>"
    by (simp add: demo_setSearch)
  ultimately show ?thesis
    by blast
qed

text \<open>
  The claim as stated says the mutators push a new entry. On the demo window
  \<^verbatim>\<open>setPage(2)\<close> leaves the back stack and the history length unchanged, and the window
  differs from the one a push of the same state gives.
\<close>

theorem table_mutators_push_counterexample:
  "history_back (snd (setPage 2 (demo_state, demo_window))) = history_back demo_window
   \<and> history_length (snd (setPage 2 (demo_state, demo_window))) = history_length demo_window
   \<and> location_href (snd (setPage 2 (demo_state, demo_window))) = ''/users?page=2&pageSize=10#top''
   \<and> snd (setPage 2 (demo_state, demo_window))
       \<noteq> setUrlParams (fst (setPage 2 (demo_state, demo_window))) None demo_window"
  by (simp add: demo_setPage demo_push) (simp add: demo_window_def history_length_def)

text \<open>
  Claim C7, as amended. From every table state, \<^verbatim>\<open>setPageSize(n)\<close> and
  \<^verbatim>\<open>setSearch(s)\<close> give a state with \<^verbatim>\<open>page = 1\<close>, and so does \<^verbatim>\<open>setFilter(k, v)\<close>
  for every key \<open>k\<close> other than \<^verbatim>\<open>page\<close>; \<^verbatim>\<open>setSearch\<close> and \<^verbatim>\<open>setFilter\<close> store an
  empty string as \<^verbatim>\<open>undefined\<close>; \<^verbatim>\<open>setSort\<close> leaves \<^verbatim>\<open>page\<close> as it was; and after
  \<^verbatim>\<open>setPage(5)\<close> then \<^verbatim>\<open>setSearch("x")\<close> the state has \<^verbatim>\<open>page = 1\<close> and
  \<^verbatim>\<open>search = "x"\<close>.
\<close>

theorem page_reset_rule:
  assumes "is_object s"
  shows "obj_get (fst (setPageSize n (s, w))) ''page'' = JNum 1
       \<and> obj_get (fst (setPageSize n (s, w))) ''pageSize'' = JNum n
       \<and> obj_get (fst (setSearch x (s, w))) ''page'' = JNum 1
       \<and> obj_get (fst (setSearch x (s, w))) ''search'' = (if x = [] then JUndefined else JStr x)
       \<and> (k \<noteq> ''page'' \<longrightarrow>
            obj_get (fst (setFilter k v (s, w))) ''page'' = JNum 1
          \<and> obj_get (fst (setFilter k v (s, w))) k = (if v = JStr [] then JUndefined else v))
       \<and> obj_get (fst (setSort field ord (s, w))) ''page'' = obj_get s ''page''
       \<and> obj_get (fst (setSearch ''x'' (setPage 5 (s, w)))) ''page'' = JNum 1
       \<and> obj_get (fst (setSearch ''x'' (setPage 5 (s, w)))) ''search'' = JStr ''x''"
proof -
  have size: "obj_get (fst (setPageSize n (s, w))) ''page'' = JNum 1
       \<and> obj_get (fst (setPageSize n (s, w))) ''pageSize'' = JNum n"
    by (simp add: setPageSize_def setAndSync_state spread_two obj_get_obj_set)
  have search: "obj_get (fst (setSearch x sw)) ''page'' = JNum 1
       \<and> obj_get (fst (setSearch x sw)) ''search'' = (if x = [] then JUndefined else JStr x)"
    for x sw
    by (cases sw) (simp add: setSearch_def setAndSync_state spread_two obj_get_obj_set)
  have filt: "obj_get (fst (setFilter k v (s, w))) ''page'' = JNum 1
          \<and> obj_get (fst (setFilter k v (s, w))) k = (if v = JStr [] then JUndefined else v)"
    if "k \<noteq> ''page''"
    using that by (simp add: setFilter_def setAndSync_state spread_two obj_get_obj_set)
  have sort: "obj_get (fst (setSort field ord (s, w))) ''page'' = obj_get s ''page''"
    using assms
    by (simp add: setSort_def setAndSync_state spread_two obj_get_obj_set obj_get_spread1)
  show ?thesis
    using size search [of x "(s, w)"] search [of "''x''" "setPage 5 (s, w)"] filt sort
    by simp
qed

theorem page_reset_rule_witness:
  "is_object demo_state
   \<and> obj_get (fst (setPageSize 20 (demo_state, demo_window))) ''page'' = JNum 1
   \<and> obj_get (fst (setSearch [] (demo_state, demo_window))) ''search'' = JUndefined
   \<and> obj_get (fst (setFilter ''status'' (JStr ''open'') (demo_state, demo_window))) ''page''
       = JNum 1
   \<and> obj_get (fst (setFilter ''status'' (JStr ''open'') (demo_state, demo_window))) ''status''
       = JStr ''open''
   \<and> obj_get (fst (setSort ''name'' Desc (demo_state, demo_window))) ''page'' = JNum 5
   \<and> obj_get (fst (setSearch ''x'' (setPage 5 (demo_state, demo_window)))) ''page'' = JNum 1
   \<and> obj_get (fst (setSearch ''x'' (setPage 5 (demo_state, demo_window)))) ''search''
       = JStr ''x''"
proof -
  have obj: "is_object demo_state"
    by (simp add: is_object_def demo_state_def)
  have page: "obj_get demo_state ''page'' = JNum 5"
    by (simp add: obj_get_def demo_state_def)
  show ?thesis
    using obj page
      page_reset_rule [OF obj, of 20 demo_window "[]" "''status''" "JStr ''open''" "''name''" Desc]
    by simp
qed

text \<open>
  The claim as stated covers every filter key. The computed key is written after
  \<^verbatim>\<open>page: 1\<close>, so \<^verbatim>\<open>setFilter("page", 7)\<close> leaves \<^verbatim>\<open>page = 7\<close>.
\<close>

theorem page_reset_rule_counterexample:
  "obj_get (fst (setFilter ''page'' (JNum 7) (demo_state, demo_window))) ''page'' = JNum 7
   \<and> obj_get (fst (setFilter ''page'' (JNum 7) (demo_state, demo_window))) ''page'' \<noteq> JNum 1"
  by (simp add: demo_setFilter_page obj_get_def)

end
